theory Spec2Isabelle
  imports Main "HOL-Library.AList"
begin

section \<open>Python strings\<close>

text \<open>
  A Python \<open>str\<close> is modelled as a \<open>string\<close>; a \<open>char\<close> stands for the Unicode code
  point of the same number, so the model covers the strings over the code points
  0 to 255. The string methods below are the ones \<open>main.py\<close> and the parts of
  \<open>urllib.parse\<close> it calls use, each with the arguments they are called with.
\<close>

definition startswith :: "string \<Rightarrow> string \<Rightarrow> bool" where
  "startswith s p = (take (length p) s = p)"

definition endswith :: "string \<Rightarrow> string \<Rightarrow> bool" where
  "endswith s p = (length p \<le> length s \<and> drop (length s - length p) s = p)"

text \<open>\<open>s.find(c)\<close> for a one-character \<open>c\<close>; \<open>None\<close> stands for the result -1.\<close>

fun find_char :: "char \<Rightarrow> string \<Rightarrow> nat option" where
  "find_char c [] = None"
| "find_char c (x # xs) = (if x = c then Some 0 else map_option Suc (find_char c xs))"

definition find_from :: "char \<Rightarrow> nat \<Rightarrow> string \<Rightarrow> nat option" where
  "find_from c start s = map_option (\<lambda>i. i + start) (find_char c (drop start s))"

text \<open>\<open>s.partition(c)\<close>: the middle component is kept as the flag "separator found".\<close>

definition partition_char :: "char \<Rightarrow> string \<Rightarrow> string \<times> bool \<times> string" where
  "partition_char c s =
     (case find_char c s of
        None \<Rightarrow> (s, False, [])
      | Some i \<Rightarrow> (take i s, True, drop (Suc i) s))"

text \<open>\<open>s.rpartition(c)[2]\<close>: what follows the last \<open>c\<close>, the whole string without one.\<close>

fun rpartition_tail :: "char \<Rightarrow> string \<Rightarrow> string" where
  "rpartition_tail c [] = []"
| "rpartition_tail c (x # xs) =
     (if c \<in> set xs then rpartition_tail c xs else if x = c then xs else x # xs)"

text \<open>\<open>s.split(c)\<close> for a one-character separator.\<close>

fun split_char :: "char \<Rightarrow> string \<Rightarrow> string list" where
  "split_char c [] = [[]]"
| "split_char c (x # xs) =
     (if x = c then [] # split_char c xs
      else (case split_char c xs of
              [] \<Rightarrow> [[x]]
            | p # ps \<Rightarrow> (x # p) # ps))"

definition is_ascii_alpha :: "char \<Rightarrow> bool" where
  "is_ascii_alpha c =
     (let n = (of_char c :: nat) in (65 \<le> n \<and> n \<le> 90) \<or> (97 \<le> n \<and> n \<le> 122))"

definition is_ascii_digit :: "char \<Rightarrow> bool" where
  "is_ascii_digit c = (let n = (of_char c :: nat) in 48 \<le> n \<and> n \<le> 57)"

text \<open>
  \<open>str.lower\<close> on the code points below 256: the ASCII capitals and the Latin-1 capitals
  0xC0 to 0xDE without the multiplication sign 0xD7 move up by 32.
\<close>

definition lower_char :: "char \<Rightarrow> char" where
  "lower_char c =
     (let n = (of_char c :: nat)
      in if (65 \<le> n \<and> n \<le> 90) \<or> (192 \<le> n \<and> n \<le> 222 \<and> n \<noteq> 215)
         then char_of (n + 32) else c)"

definition lower :: "string \<Rightarrow> string" where
  "lower s = map lower_char s"

text \<open>
  \<open>str.isspace\<close> on the code points below 256, which \<open>str.strip()\<close> without an
  argument removes from both ends.
\<close>

definition isspace :: "char \<Rightarrow> bool" where
  "isspace c =
     (let n = (of_char c :: nat)
      in (9 \<le> n \<and> n \<le> 13) \<or> (28 \<le> n \<and> n \<le> 32) \<or> n = 133 \<or> n = 160)"

definition strip :: "string \<Rightarrow> string" where
  "strip s = rev (dropWhile isspace (rev (dropWhile isspace s)))"

text \<open>\<open>s.replace(old, '', 1)\<close>: the first occurrence of \<open>old\<close> is removed, wherever it is.\<close>

fun remove_first :: "string \<Rightarrow> string \<Rightarrow> string" where
  "remove_first old [] = []"
| "remove_first old (x # xs) =
     (if old \<noteq> [] \<and> startswith (x # xs) old then drop (length old) (x # xs)
      else x # remove_first old xs)"

section \<open>Exceptions\<close>

text \<open>
  The exception classes the handlers at the bottom of \<open>main.py\<close> tell apart, each with
  its message; \<open>ClickException\<close> also has its \<open>exit_code\<close>. \<open>OtherException\<close> stands for
  an \<open>Exception\<close> of none of the three classes.
\<close>

datatype exn =
    ClickException int string
  | ValueError string
  | DownloadError string
  | OtherException string


section \<open>The URL parser of the standard library\<close>

text \<open>
  \<open>main.py\<close> reads two things from \<open>urllib.parse.urlparse\<close>: the \<open>hostname\<close> and the
  \<open>path\<close> of the result. The model follows \<open>urlparse\<close>, \<open>urlsplit\<close> and the \<open>hostname\<close>
  property of CPython 3.11 on \<open>str\<close> input, with both optional arguments at their
  defaults. \<open>_checknetloc\<close> is left out: it returns at once on an ASCII netloc, and
  on the other code points below 256 NFKC normalisation yields none of the characters it
  looks for, so it never raises on a string of the model.
\<close>

definition is_hex_digit :: "char \<Rightarrow> bool" where
  "is_hex_digit c = (c \<in> set ''0123456789ABCDEFabcdef'')"

definition decimal :: "string \<Rightarrow> nat" where
  "decimal s = fold (\<lambda>c n. 10 * n + (of_char c - 48)) s 0"

text \<open>
  \<open>ipaddress.ip_address\<close> is called on the text between the brackets only to see
  whether it raises; \<open>IPv4Address_ok\<close> and \<open>IPv6Address_ok\<close> say that the constructor
  of the class returns.
\<close>

definition parse_octet_ok :: "string \<Rightarrow> bool" where
  "parse_octet_ok octet_str =
     (octet_str \<noteq> [] \<and> list_all is_ascii_digit octet_str \<and> length octet_str \<le> 3
      \<and> \<not> (octet_str \<noteq> ''0'' \<and> hd octet_str = CHR ''0'')
      \<and> decimal octet_str \<le> 255)"

definition IPv4Address_ok :: "string \<Rightarrow> bool" where
  "IPv4Address_ok addr_str =
     (CHR ''/'' \<notin> set addr_str \<and> addr_str \<noteq> []
      \<and> (let octets = split_char CHR ''.'' addr_str
         in length octets = 4 \<and> list_all parse_octet_ok octets))"

definition parse_hextet_ok :: "string \<Rightarrow> bool" where
  "parse_hextet_ok hextet_str =
     (list_all is_hex_digit hextet_str \<and> length hextet_str \<le> 4 \<and> hextet_str \<noteq> [])"

text \<open>
  The part of \<open>_BaseV6._ip_int_from_string\<close> after an IPv4 suffix has been replaced:
  the count of parts, the place of the one \<open>::\<close>, and the hextets that are parsed.
\<close>

definition hextets_ok :: "string list \<Rightarrow> bool" where
  "hextets_ok parts =
     (if length parts > 9 then False
      else
        (case filter (\<lambda>i. parts ! i = []) [1 ..< length parts - 1] of
           [] \<Rightarrow>
             length parts = 8 \<and> hd parts \<noteq> [] \<and> last parts \<noteq> []
             \<and> list_all parse_hextet_ok parts
         | [skip_index] \<Rightarrow>
             (let parts_hi = (if hd parts = [] then skip_index - 1 else skip_index);
                  lo = length parts - skip_index - 1;
                  parts_lo = (if last parts = [] then lo - 1 else lo)
              in \<not> (hd parts = [] \<and> parts_hi \<noteq> 0)
                 \<and> \<not> (last parts = [] \<and> parts_lo \<noteq> 0)
                 \<and> parts_hi + parts_lo < 8
                 \<and> list_all parse_hextet_ok (take parts_hi parts)
                 \<and> list_all parse_hextet_ok (drop (length parts - parts_lo) parts))
         | _ \<Rightarrow> False))"

text \<open>
  An IPv4 suffix is replaced by two hextets printed with \<open>%x\<close> from 16-bit numbers; they
  always parse, and only that is read here, so \<open>''0''\<close> stands for each.
\<close>

definition ip_int_from_string_ok :: "string \<Rightarrow> bool" where
  "ip_int_from_string_ok ip_str =
     (if ip_str = [] then False
      else
        (let parts = split_char CHR '':'' ip_str
         in if length parts < 3 then False
            else if CHR ''.'' \<in> set (last parts)
            then IPv4Address_ok (last parts) \<and> hextets_ok (butlast parts @ [''0'', ''0''])
            else hextets_ok parts))"

definition IPv6Address_ok :: "string \<Rightarrow> bool" where
  "IPv6Address_ok addr_str =
     (if CHR ''/'' \<in> set addr_str then False
      else
        (case partition_char CHR ''%'' addr_str of
           (addr, sep, scope_id) \<Rightarrow>
             if sep \<and> (scope_id = [] \<or> CHR ''%'' \<in> set scope_id) then False
             else ip_int_from_string_ok addr))"

text \<open>\<open>repr\<close> of a \<open>str\<close>, which the message of \<open>ip_address\<close> quotes the address with.\<close>

definition hex2 :: "nat \<Rightarrow> string" where
  "hex2 n = [''0123456789abcdef'' ! (n div 16), ''0123456789abcdef'' ! (n mod 16)]"

definition repr_char :: "char \<Rightarrow> char \<Rightarrow> string" where
  "repr_char quote c =
     (let n = (of_char c :: nat)
      in if c = quote \<or> c = CHR 0x5C then [CHR 0x5C, c]
         else if n = 9 then [CHR 0x5C, CHR ''t'']
         else if n = 10 then [CHR 0x5C, CHR ''n'']
         else if n = 13 then [CHR 0x5C, CHR ''r'']
         else if n < 32 \<or> (127 \<le> n \<and> n \<le> 160) \<or> n = 173
         then [CHR 0x5C, CHR ''x''] @ hex2 n
         else [c])"

definition repr :: "string \<Rightarrow> string" where
  "repr s =
     (let quote = (if CHR 0x27 \<in> set s \<and> CHR 0x22 \<notin> set s then CHR 0x22 else CHR 0x27)
      in [quote] @ concat (map (repr_char quote) s) @ [quote])"

text \<open>
  \<open>_check_bracketed_host\<close>: \<open>None\<close> when it returns, the exception when it raises. The
  regular expression asks for \<open>v\<close>, one or more hex digits, a dot, and one or more
  characters other than a newline up to the end.
\<close>

definition check_bracketed_host :: "string \<Rightarrow> exn option" where
  "check_bracketed_host host =
     (if startswith host ''v'' then
        (let rest = dropWhile is_hex_digit (tl host)
         in if takeWhile is_hex_digit (tl host) \<noteq> [] \<and> startswith rest ''.''
               \<and> tl rest \<noteq> [] \<and> CHR 0x0A \<notin> set (tl rest)
            then None
            else Some (ValueError ''IPvFuture address is invalid''))
      else if IPv4Address_ok host
      then Some (ValueError ''An IPv4 address cannot be in brackets'')
      else if IPv6Address_ok host then None
      else Some (ValueError (repr host @ '' does not appear to be an IPv4 or IPv6 address'')))"

definition scheme_chars :: string where
  "scheme_chars = ''abcdefghijklmnopqrstuvwxyzABCDEFGHIJKLMNOPQRSTUVWXYZ0123456789+-.''"

definition uses_params :: "string list" where
  "uses_params = ['''', ''ftp'', ''hdl'', ''prospero'', ''http'', ''imap'', ''https'', ''shttp'',
                  ''rtsp'', ''rtsps'', ''rtspu'', ''sip'', ''sips'', ''mms'', ''sftp'', ''tel'']"

definition splitnetloc :: "string \<Rightarrow> nat \<Rightarrow> string \<times> string" where
  "splitnetloc url start =
     (let delim = fold (\<lambda>c delim. case find_from c start url of
                                     Some wdelim \<Rightarrow> min delim wdelim
                                   | None \<Rightarrow> delim)
                       ''/?#'' (length url)
      in (take (delim - start) (drop start url), drop delim url))"

text \<open>The scheme is split off when everything before the first colon is a scheme character.\<close>

definition split_scheme :: "string \<Rightarrow> string \<times> string" where
  "split_scheme url =
     (case find_char CHR '':'' url of
        None \<Rightarrow> ('''', url)
      | Some i \<Rightarrow>
          if i > 0 \<and> is_ascii_alpha (hd url) \<and> list_all (\<lambda>c. c \<in> set scheme_chars) (take i url)
          then (lower (take i url), drop (Suc i) url)
          else ('''', url))"

text \<open>The fragment and then the query are cut off what follows the netloc.\<close>

definition split_rest :: "string \<Rightarrow> string \<times> string \<times> string" where
  "split_rest url =
     (case partition_char CHR ''#'' url of
        (url1, _, fragment) \<Rightarrow>
          (case partition_char CHR ''?'' url1 of
             (url2, _, query) \<Rightarrow> (url2, query, fragment)))"

definition urlsplit :: "string \<Rightarrow> exn + (string \<times> string \<times> string \<times> string \<times> string)" where
  "urlsplit url0 =
     (let url1 = dropWhile (\<lambda>c. (of_char c :: nat) \<le> 32) url0;
          url2 = filter (\<lambda>c. c \<notin> {CHR 0x09, CHR 0x0D, CHR 0x0A}) url1
      in case split_scheme url2 of
           (scheme, url3) \<Rightarrow>
             if take 2 url3 = ''//'' then
               (case splitnetloc url3 2 of
                  (netloc, url4) \<Rightarrow>
                    if (CHR ''['' \<in> set netloc \<and> CHR '']'' \<notin> set netloc)
                       \<or> (CHR '']'' \<in> set netloc \<and> CHR ''['' \<notin> set netloc)
                    then Inl (ValueError ''Invalid IPv6 URL'')
                    else
                      (case (if CHR ''['' \<in> set netloc \<and> CHR '']'' \<in> set netloc
                             then check_bracketed_host
                                    (fst (partition_char CHR '']''
                                       (snd (snd (partition_char CHR ''['' netloc)))))
                             else None) of
                         Some e \<Rightarrow> Inl e
                       | None \<Rightarrow>
                           (case split_rest url4 of
                              (url5, query, fragment) \<Rightarrow>
                                Inr (scheme, netloc, url5, query, fragment))))
             else
               (case split_rest url3 of
                  (url5, query, fragment) \<Rightarrow> Inr (scheme, '''', url5, query, fragment)))"

definition rfind_char :: "char \<Rightarrow> string \<Rightarrow> nat option" where
  "rfind_char c s = map_option (\<lambda>j. length s - 1 - j) (find_char c (rev s))"

text \<open>
  \<open>_splitparams\<close> is called on a url that holds a semicolon. The last case is the slice
  Python takes at index -1, which that rules out.
\<close>

definition splitparams :: "string \<Rightarrow> string \<times> string" where
  "splitparams url =
     (case rfind_char CHR ''/'' url of
        Some r \<Rightarrow>
          (case find_from CHR '';'' r url of
             None \<Rightarrow> (url, '''')
           | Some i \<Rightarrow> (take i url, drop (Suc i) url))
      | None \<Rightarrow>
          (case find_char CHR '';'' url of
             Some i \<Rightarrow> (take i url, drop (Suc i) url)
           | None \<Rightarrow> (butlast url, url)))"

record ParseResult =
  scheme :: string
  netloc :: string
  path :: string
  params :: string
  query :: string
  fragment :: string

definition urlparse :: "string \<Rightarrow> exn + ParseResult" where
  "urlparse url =
     (case urlsplit url of
        Inl e \<Rightarrow> Inl e
      | Inr (scheme', netloc', url', query', fragment') \<Rightarrow>
          (case (if scheme' \<in> set uses_params \<and> CHR '';'' \<in> set url'
                 then splitparams url' else (url', '''')) of
             (url'', params') \<Rightarrow>
               Inr \<lparr>scheme = scheme', netloc = netloc', path = url'', params = params',
                    query = query', fragment = fragment'\<rparr>))"

text \<open>The \<open>hostname\<close> property: \<open>None\<close> for an empty host, lower case up to a zone.\<close>

definition hostinfo_host :: "string \<Rightarrow> string" where
  "hostinfo_host netloc' =
     (let hostinfo = rpartition_tail CHR ''@'' netloc'
      in case partition_char CHR ''['' hostinfo of
           (_, have_open_br, bracketed) \<Rightarrow>
             if have_open_br then fst (partition_char CHR '']'' bracketed)
             else fst (partition_char CHR '':'' hostinfo))"

definition hostname :: "ParseResult \<Rightarrow> string option" where
  "hostname p =
     (let h = hostinfo_host (netloc p)
      in if h = [] then None
         else (case partition_char CHR ''%'' h of
                 (hn, percent, zone) \<Rightarrow>
                   Some (lower hn @ (if percent then ''%'' else '''') @ zone)))"


section \<open>The log adapter\<close>

text \<open>
  A call of a method of the structlog logger: the level (the method's name), the event
  name and the keyword arguments.
\<close>

datatype level = Debug | Info | Warning | Error | Exception

type_synonym log_call = "level \<times> string \<times> (string \<times> string) list"

text \<open>
  The three methods of \<open>YtDlpStructlogAdapter\<close>. Each returns the call it makes on
  \<open>self.logger\<close>, or \<open>None\<close> when it returns without one.
\<close>

definition YtDlpStructlogAdapter_debug :: "string \<Rightarrow> log_call option" where
  "YtDlpStructlogAdapter_debug msg =
     (if strip msg = [] then None
      else if startswith msg ''[debug]''
      then (let clean_msg = strip (remove_first ''[debug]'' msg)
            in Some (Debug, ''yt_dlp_debug'', [(''detail'', clean_msg)]))
      else Some (Info, ''yt_dlp_info'', [(''detail'', strip msg)]))"

definition YtDlpStructlogAdapter_warning :: "string \<Rightarrow> log_call option" where
  "YtDlpStructlogAdapter_warning msg =
     (if strip msg = [] then None
      else (let clean_msg = strip (remove_first ''WARNING:'' msg)
            in Some (Warning, ''yt_dlp_warning'', [(''detail'', clean_msg)])))"

definition YtDlpStructlogAdapter_error :: "string \<Rightarrow> log_call option" where
  "YtDlpStructlogAdapter_error msg =
     (if strip msg = [] then None
      else (let clean_msg = strip (remove_first ''ERROR:'' msg)
            in Some (Error, ''yt_dlp_error'', [(''detail'', clean_msg)])))"

section \<open>The URL classifier\<close>

definition ensure_scheme :: "string \<Rightarrow> string" where
  "ensure_scheme url =
     (if \<not> (startswith url ''http://'' \<or> startswith url ''https://'')
      then ''https://'' @ url
      else url)"

definition valid_domains :: "string list" where
  "valid_domains = [''youtube.com'', ''youtu.be'']"

text \<open>\<open>parsed.hostname or ''\<close>\<close>

definition host_of :: "ParseResult \<Rightarrow> string" where
  "host_of parsed = (case hostname parsed of None \<Rightarrow> '''' | Some h \<Rightarrow> h)"

definition is_youtube_url :: "string \<Rightarrow> exn + bool" where
  "is_youtube_url url0 =
     (let url = ensure_scheme url0
      in case urlparse url of
           Inl e \<Rightarrow> Inl e
         | Inr parsed \<Rightarrow>
             (let host = host_of parsed
              in Inr (list_ex (\<lambda>domain. host = domain \<or> endswith host (''.'' @ domain))
                        valid_domains)))"

definition is_single_video :: "string \<Rightarrow> exn + bool" where
  "is_single_video url0 =
     (let url = ensure_scheme url0
      in case urlparse url of
           Inl e \<Rightarrow> Inl e
         | Inr parsed \<Rightarrow>
             (let host = host_of parsed; path' = path parsed
              in if host \<in> set [''youtu.be'', ''www.youtu.be''] then Inr True
                 else if list_ex (startswith path') [''/watch'', ''/shorts/'', ''/live/'']
                 then Inr True
                 else if startswith path' ''/playlist'' then Inr False
                 else Inl (ValueError
                        (''Unsupported or invalid YouTube URL structure: '' @ [CHR 0x22] @ url
                         @ [CHR 0x22]))))"

section \<open>Objects and the store\<close>

text \<open>
  The configuration is a dictionary that holds further dictionaries, lists, a set and
  the adapter instance. Python hands all of these around by reference, and the program
  both copies and writes to them, so they live in a store: a value is either immutable
  and held directly, or a reference to an object of the store.
\<close>

type_synonym addr = nat

datatype val = VNone | VBool bool | VInt int | VStr string | VRef addr

datatype obj =
    Dict "(string \<times> val) list"
  | PyList "val list"
  | PySet "val list"
  | Instance string "(string \<times> val) list"

text \<open>What the program asks the engine to do: each call with the mapping of its session.\<close>

datatype engine_call =
    ExtractInfo val string
  | Download val "string list"

record world =
  objs :: "addr \<Rightarrow> obj option"
  next_addr :: addr
  logger :: val
  engine_calls :: "engine_call list"
  logged :: "log_call list"

definition alloc :: "obj \<Rightarrow> world \<Rightarrow> val \<times> world" where
  "alloc ob w =
     (VRef (next_addr w),
      w\<lparr>objs := (objs w)(next_addr w \<mapsto> ob), next_addr := Suc (next_addr w)\<rparr>)"

definition log_call :: "level \<Rightarrow> string \<Rightarrow> (string \<times> string) list \<Rightarrow> world \<Rightarrow> world" where
  "log_call lv event kw w = w\<lparr>logged := logged w @ [(lv, event, kw)]\<rparr>"

text \<open>The values an object holds, and the object with these values replaced.\<close>

fun children :: "obj \<Rightarrow> val list" where
  "children (Dict kvs) = map snd kvs"
| "children (PyList vs) = vs"
| "children (PySet vs) = vs"
| "children (Instance c kvs) = map snd kvs"

fun rebuild :: "obj \<Rightarrow> val list \<Rightarrow> obj" where
  "rebuild (Dict kvs) vs = Dict (zip (map fst kvs) vs)"
| "rebuild (PyList _) vs = PyList vs"
| "rebuild (PySet _) vs = PySet vs"
| "rebuild (Instance c kvs) vs = Instance c (zip (map fst kvs) vs)"

text \<open>
  \<open>copy.deepcopy\<close> with its memo. An immutable value is returned as it is; an object
  already in the memo yields its copy; any other object gets a new, empty copy that is
  entered into the memo before the values of the object are copied into it in order.
  The first argument bounds the nesting of the calls; \<open>None\<close> says that the bound was
  reached or that a reference points to no object.
\<close>

fun deepcopy :: "nat \<Rightarrow> val \<Rightarrow> (addr \<Rightarrow> addr option) \<Rightarrow> world
                   \<Rightarrow> (val \<times> (addr \<Rightarrow> addr option) \<times> world) option"
  and deepcopy_all :: "nat \<Rightarrow> val list \<Rightarrow> (addr \<Rightarrow> addr option) \<Rightarrow> world
                   \<Rightarrow> (val list \<times> (addr \<Rightarrow> addr option) \<times> world) option"
where
  "deepcopy 0 x memo w = None"
| "deepcopy (Suc n) (VRef a) memo w =
     (case memo a of
        Some y \<Rightarrow> Some (VRef y, memo, w)
      | None \<Rightarrow>
          (case objs w a of
             None \<Rightarrow> None
           | Some ob \<Rightarrow>
               (let y = next_addr w;
                    w1 = snd (alloc (rebuild ob []) w)
                in case deepcopy_all n (children ob) (memo(a \<mapsto> y)) w1 of
                     None \<Rightarrow> None
                   | Some (vs, memo2, w2) \<Rightarrow>
                       Some (VRef y, memo2, w2\<lparr>objs := (objs w2)(y \<mapsto> rebuild ob vs)\<rparr>))))"
| "deepcopy (Suc n) x memo w = Some (x, memo, w)"
| "deepcopy_all n [] memo w = Some ([], memo, w)"
| "deepcopy_all n (x # xs) memo w =
     (case deepcopy n x memo w of
        None \<Rightarrow> None
      | Some (y, memo1, w1) \<Rightarrow>
          (case deepcopy_all n xs memo1 w1 of
             None \<Rightarrow> None
           | Some (ys, memo2, w2) \<Rightarrow> Some (y # ys, memo2, w2)))"

text \<open>
  \<open>copy.deepcopy(params)\<close>. A nested call is always on an object that is not yet in the
  memo, so the nesting never exceeds the number of objects of the store.
\<close>

definition deepcopy_params :: "val \<Rightarrow> world \<Rightarrow> (val \<times> world) option" where
  "deepcopy_params x w =
     (case deepcopy (Suc (next_addr w)) x Map.empty w of
        None \<Rightarrow> None
      | Some (y, _, w') \<Rightarrow> Some (y, w'))"

text \<open>
  \<open>d[key]\<close> and \<open>d[key] = v\<close> with a string key. Only a dictionary takes one; the other
  objects and values raise \<open>TypeError\<close>, a missing key raises \<open>KeyError\<close>.
\<close>

definition getitem :: "val \<Rightarrow> string \<Rightarrow> world \<Rightarrow> exn + val" where
  "getitem d key w =
     (case d of
        VRef a \<Rightarrow>
          (case objs w a of
             Some (Dict kvs) \<Rightarrow>
               (case map_of kvs key of
                  Some v \<Rightarrow> Inr v
                | None \<Rightarrow> Inl (OtherException ''KeyError''))
           | _ \<Rightarrow> Inl (OtherException ''TypeError''))
      | _ \<Rightarrow> Inl (OtherException ''TypeError''))"

definition setitem :: "val \<Rightarrow> string \<Rightarrow> val \<Rightarrow> world \<Rightarrow> exn + world" where
  "setitem d key v w =
     (case d of
        VRef a \<Rightarrow>
          (case objs w a of
             Some (Dict kvs) \<Rightarrow> Inr (w\<lparr>objs := (objs w)(a \<mapsto> Dict (AList.update key v kvs))\<rparr>)
           | _ \<Rightarrow> Inl (OtherException ''TypeError''))
      | _ \<Rightarrow> Inl (OtherException ''TypeError''))"

section \<open>The configuration builder\<close>

text \<open>
  The objects of the literal are made from the inside out, as Python evaluates it; the
  dictionary itself comes last.
\<close>

definition format_selector :: string where
  "format_selector =
     ''bestvideo+bestaudio[language^=ru]+bestaudio[language^=en]/''
     @ ''bestvideo+bestaudio[language^=ru]/''
     @ ''bestvideo+bestaudio[language^=en]/''
     @ ''bestvideo+bestaudio/best''"

definition user_agent :: string where
  "user_agent =
     ''Mozilla/5.0 (iPhone17,5; CPU iPhone OS 18_3_2 like Mac OS X) ''
     @ ''AppleWebKit/605.1.15 (KHTML, like Gecko) Mobile/15E148 FireKeepers/1.7.0''"

definition get_base_ydl_params :: "val \<Rightarrow> world \<Rightarrow> val \<times> world" where
  "get_base_ydl_params custom_logger w0 =
     (case alloc (PySet [VStr ''no-certifi'']) w0 of (compat_opts, w1) \<Rightarrow>
      case alloc (Dict [(''default'', VStr ''''), (''pl_thumbnail'', VStr '''')]) w1 of (outtmpl, w2) \<Rightarrow>
      case alloc (Dict [(''already_have_subtitle'', VBool False),
                        (''key'', VStr ''FFmpegEmbedSubtitle'')]) w2 of (pp1, w3) \<Rightarrow>
      case alloc (Dict [(''add_chapters'', VBool True),
                        (''add_infojson'', VStr ''if_exists''),
                        (''add_metadata'', VBool True),
                        (''key'', VStr ''FFmpegMetadata'')]) w3 of (pp2, w4) \<Rightarrow>
      case alloc (Dict [(''already_have_thumbnail'', VBool False),
                        (''key'', VStr ''EmbedThumbnail'')]) w4 of (pp3, w5) \<Rightarrow>
      case alloc (Dict [(''key'', VStr ''FFmpegConcat''),
                        (''only_multi_video'', VBool True),
                        (''when'', VStr ''playlist'')]) w5 of (pp4, w6) \<Rightarrow>
      case alloc (PyList [pp1, pp2, pp3, pp4]) w6 of (postprocessors, w7) \<Rightarrow>
      case alloc (PyList [VStr ''ru'', VStr ''en'']) w7 of (subtitleslangs, w8) \<Rightarrow>
      case alloc (Dict [(''User-Agent'', VStr user_agent)]) w8 of (http_headers, w9) \<Rightarrow>
      case alloc (PyList [VStr ''ejs:github'']) w9 of (remote_components, w10) \<Rightarrow>
      case alloc (Instance ''YtDlpStructlogAdapter'' [(''logger'', custom_logger)]) w10 of
        (adapter, w11) \<Rightarrow>
      alloc (Dict [
        (''allow_multiple_audio_streams'', VBool True),
        (''compat_opts'', compat_opts),
        (''extract_flat'', VStr ''discard_in_playlist''),
        (''format'', VStr format_selector),
        (''ignoreerrors'', VStr ''only_download''),
        (''outtmpl'', outtmpl),
        (''postprocessors'', postprocessors),
        (''subtitleslangs'', subtitleslangs),
        (''updatetime'', VBool True),
        (''warn_when_outdated'', VBool True),
        (''windowsfilenames'', VBool True),
        (''writesubtitles'', VBool True),
        (''writethumbnail'', VBool True),
        (''merge_output_format'', VStr ''mkv/mp4''),
        (''http_headers'', http_headers),
        (''continuedl'', VBool True),
        (''retries'', VInt 15),
        (''fragment_retries'', VInt 15),
        (''skip_unavailable_fragments'', VBool False),
        (''retry_sleep'', VInt 5),
        (''remote_components'', remote_components),
        (''embeddescription'', VBool True),
        (''noprogress'', VBool True),
        (''logger'', adapter)]) w11)"

section \<open>The download orchestrator\<close>

text \<open>
  The engine is the third-party \<open>YoutubeDL\<close>. Its two operations are parameters: each
  reads the store and the mapping of the session and returns or raises. The metadata of
  \<open>extract_info\<close> is \<open>None\<close> or a dictionary whose values are strings or \<open>None\<close>. What the
  engine itself writes into the mapping it was given is not part of the model, and the
  session keeps that very mapping as \<open>ydl.params\<close>. Opening the session on the mapping
  and closing it belong to the engine too: an exception raised when the session is
  opened is read as the exception of the first operation asked of it, and one raised
  when it is closed as the exception of the last.
\<close>

type_synonym info = "string \<Rightarrow> string option option"

record engine =
  extract_info :: "(addr \<Rightarrow> obj option) \<Rightarrow> val \<Rightarrow> string \<Rightarrow> exn + info option"
  download :: "(addr \<Rightarrow> obj option) \<Rightarrow> val \<Rightarrow> string list \<Rightarrow> exn + unit"

text \<open>\<open>info.get(key)\<close>, and \<open>a or b\<close> on values that are a string or \<open>None\<close>.\<close>

definition info_get :: "info \<Rightarrow> string \<Rightarrow> string option" where
  "info_get i key = (case i key of None \<Rightarrow> None | Some v \<Rightarrow> v)"

definition py_or :: "string option \<Rightarrow> string option \<Rightarrow> string option" where
  "py_or a b = (if a = None \<or> a = Some '''' then b else a)"

text \<open>Steps 2 and 3 of \<open>download_single_video\<close>: the author, without one leading \<open>@\<close>.\<close>

definition author_of :: "info \<Rightarrow> string" where
  "author_of i =
     (let author =
            (case py_or (info_get i ''channel'')
                    (py_or (info_get i ''uploader'')
                       (py_or (info_get i ''creator'')
                          (py_or (info_get i ''uploader_id'') (Some ''Unknown Author'')))) of
               Some a \<Rightarrow> a
             | None \<Rightarrow> '''')
      in if startswith author ''@'' then drop 1 author else author)"

definition download_single_video ::
  "engine \<Rightarrow> string \<Rightarrow> val \<Rightarrow> string \<Rightarrow> world \<Rightarrow> ((exn + unit) \<times> world) option" where
  "download_single_video ydl url params' cookies w =
     (case deepcopy_params params' w of
        None \<Rightarrow> None
      | Some (local_params, w1) \<Rightarrow>
          Some
            (case (if cookies \<noteq> '''' then setitem local_params ''cookiefile'' (VStr cookies) w1
                   else Inr w1) of
               Inl e \<Rightarrow> (Inl e, w1)
             | Inr w2 \<Rightarrow>
                 (let w3 = w2\<lparr>engine_calls := engine_calls w2 @ [ExtractInfo local_params url]\<rparr>
                  in case extract_info ydl (objs w3) local_params url of
                       Inl e \<Rightarrow> (Inl e, w3)
                     | Inr r \<Rightarrow>
                         (let i = (case r of None \<Rightarrow> Map.empty | Some i' \<Rightarrow> i');
                              author = author_of i
                          in case getitem local_params ''outtmpl'' w3 of
                               Inl e \<Rightarrow> (Inl e, w3)
                             | Inr outtmpl \<Rightarrow>
                                 (case setitem outtmpl ''default''
                                         (VStr (author @ '' - %(title)s.%(ext)s'')) w3 of
                                    Inl e \<Rightarrow> (Inl e, w3)
                                  | Inr w4 \<Rightarrow>
                                      (let w5 = w4\<lparr>engine_calls :=
                                                      engine_calls w4 @ [Download local_params [url]]\<rparr>
                                       in case download ydl (objs w5) local_params [url] of
                                            Inl e \<Rightarrow> (Inl e, w5)
                                          | Inr _ \<Rightarrow> (Inr (), w5)))))))"

definition playlist_template :: string where
  "playlist_template = ''%(channel)s - %(playlist_title)s/%(playlist_index)03d - %(title)s.%(ext)s''"

definition download_playlist ::
  "engine \<Rightarrow> string \<Rightarrow> val \<Rightarrow> string \<Rightarrow> world \<Rightarrow> ((exn + unit) \<times> world) option" where
  "download_playlist ydl url params' cookies w =
     (case deepcopy_params params' w of
        None \<Rightarrow> None
      | Some (local_params, w1) \<Rightarrow>
          Some
            (case getitem local_params ''outtmpl'' w1 of
               Inl e \<Rightarrow> (Inl e, w1)
             | Inr outtmpl \<Rightarrow>
                 (case setitem outtmpl ''default'' (VStr playlist_template) w1 of
                    Inl e \<Rightarrow> (Inl e, w1)
                  | Inr w2 \<Rightarrow>
                      (case (if cookies \<noteq> ''''
                             then setitem local_params ''cookiefile'' (VStr cookies) w2
                             else Inr w2) of
                         Inl e \<Rightarrow> (Inl e, w2)
                       | Inr w3 \<Rightarrow>
                           (let w4 = w3\<lparr>engine_calls :=
                                           engine_calls w3 @ [Download local_params [url]]\<rparr>
                            in case download ydl (objs w4) local_params [url] of
                                 Inl e \<Rightarrow> (Inl e, w4)
                               | Inr _ \<Rightarrow> (Inr (), w4))))))"

section \<open>The command and the script\<close>

definition main :: "engine \<Rightarrow> string \<Rightarrow> string \<Rightarrow> world \<Rightarrow> ((exn + unit) \<times> world) option" where
  "main ydl url cookies w =
     (case is_youtube_url url of
        Inl e \<Rightarrow> Some (Inl e, w)
      | Inr False \<Rightarrow>
          Some (Inl (ValueError (''Not a valid YouTube URL: '' @ [CHR 0x22] @ url @ [CHR 0x22])),
                log_call Error ''invalid_url'' [(''url'', url)] w)
      | Inr True \<Rightarrow>
          (case get_base_ydl_params (logger w) w of
             (base_params, w1) \<Rightarrow>
               (case is_single_video url of
                  Inl e \<Rightarrow> Some (Inl e, w1)
                | Inr True \<Rightarrow>
                    download_single_video ydl url base_params cookies
                      (log_call Info ''downloading_single_video'' [(''url'', url)] w1)
                | Inr False \<Rightarrow>
                    download_playlist ydl url base_params cookies
                      (log_call Info ''downloading_playlist'' [(''url'', url)] w1))))"

text \<open>
  The module creates its logger when it is loaded. The store of a run starts with that
  one object.
\<close>

definition initial_world :: world where
  "initial_world =
     \<lparr>objs = [0 \<mapsto> Instance ''BoundLoggerLazyProxy'' []], next_addr = 1, logger = VRef 0,
      engine_calls = [], logged = []\<rparr>"

text \<open>
  \<open>app(standalone_mode=False)\<close>: the argument parser either raises, or calls \<open>main\<close> with
  the url and the cookies option it has read.
\<close>

definition app :: "engine \<Rightarrow> exn + string \<times> string \<Rightarrow> world \<Rightarrow> ((exn + unit) \<times> world) option" where
  "app ydl argv w =
     (case argv of
        Inl e \<Rightarrow> Some (Inl e, w)
      | Inr (url, cookies) \<Rightarrow> main ydl url cookies w)"

text \<open>The handlers of the script, in their order: the exit code and the call that logs it.\<close>

fun handle :: "exn \<Rightarrow> world \<Rightarrow> int \<times> world" where
  "handle (ClickException exit_code msg) w = (exit_code, log_call Error ''cli_error'' [(''error'', msg)] w)"
| "handle (ValueError msg) w = (3, log_call Error ''validation_error'' [(''error'', msg)] w)"
| "handle (DownloadError msg) w = (2, log_call Error ''download_error'' [(''error'', msg)] w)"
| "handle (OtherException msg) w = (1, log_call Exception ''unhandled_exception'' [(''error'', msg)] w)"

text \<open>The script run as \<open>__main__\<close>: the exit code of the process and the final state.\<close>

definition script :: "engine \<Rightarrow> exn + string \<times> string \<Rightarrow> (int \<times> world) option" where
  "script ydl argv =
     (case app ydl argv (log_call Info ''application_started'' [] initial_world) of
        None \<Rightarrow> None
      | Some (Inl e, w) \<Rightarrow> Some (handle e w)
      | Some (Inr _, w) \<Rightarrow> Some (0, w))"


section \<open>The wording of the specification\<close>

text \<open>
  The specification speaks of a URL that has a network scheme. Read on its own, that is
  a URL that starts with a scheme name, a colon and two slashes, whatever the scheme;
  the scheme name is found the way the parser finds it.
\<close>

definition spec_has_network_scheme :: "string \<Rightarrow> bool" where
  "spec_has_network_scheme url =
     (case split_scheme url of (s, rest) \<Rightarrow> s \<noteq> '''' \<and> startswith rest ''//'')"


section \<open>Invariants of copying\<close>

text \<open>
  The predicates of the proofs about \<open>deepcopy\<close>: a value made at or after an address,
  a value that is immutable or a copy recorded in the memo, the copies of the memo being
  closed under reference, and the parts of the state a copy leaves alone.
\<close>


definition fresh_val :: "addr \<Rightarrow> val \<Rightarrow> bool" where
  "fresh_val n v = (case v of VRef a \<Rightarrow> n \<le> a | _ \<Rightarrow> True)"

definition copied :: "(addr \<Rightarrow> addr option) \<Rightarrow> val \<Rightarrow> bool" where
  "copied memo v = (case v of VRef a \<Rightarrow> a \<in> ran memo | _ \<Rightarrow> True)"

definition copies_ok :: "addr \<Rightarrow> (addr \<Rightarrow> addr option) \<Rightarrow> world \<Rightarrow> bool" where
  "copies_ok n memo w \<longleftrightarrow>
     (\<forall>a y. memo a = Some y \<longrightarrow>
        n \<le> y \<and> y < next_addr w \<and>
        (\<forall>ob. objs w y = Some ob \<longrightarrow> (\<forall>v \<in> set (children ob). copied memo v)))"

definition same_rest :: "world \<Rightarrow> world \<Rightarrow> bool" where
  "same_rest w w' \<longleftrightarrow>
     logger w' = logger w \<and> engine_calls w' = engine_calls w \<and> logged w' = logged w"

definition frame :: "addr \<Rightarrow> world \<Rightarrow> world \<Rightarrow> bool" where
  "frame n w w' \<longleftrightarrow> (\<forall>a < n. objs w' a = objs w a)"

text \<open>What a caller of \<open>deepcopy_params\<close> may rely on: the copy and what it holds are new.\<close>

definition fresh_obj :: "addr \<Rightarrow> world \<Rightarrow> val \<Rightarrow> bool" where
  "fresh_obj n w v \<longleftrightarrow>
     fresh_val n v \<and>
     (\<forall>a ob. v = VRef a \<longrightarrow> objs w a = Some ob \<longrightarrow> (\<forall>c \<in> set (children ob). fresh_val n c))"


text \<open>
  What \<open>copy.deepcopy\<close> is to deliver. Two objects have the same shape when they are of
  the same kind and have the same keys in the same order, or the same number of
  elements. A value is a deep copy of another, made at or after an address, when an
  immutable value is the value itself and a reference leads to an object made at or
  after that address, of the shape of the original, whose values are in turn deep copies
  of the original's. The first argument bounds the depth that is looked at.
\<close>

fun same_shape :: "obj \<Rightarrow> obj \<Rightarrow> bool" where
  "same_shape (Dict kvs) (Dict kvs') = (map fst kvs = map fst kvs')"
| "same_shape (PyList vs) (PyList vs') = (length vs = length vs')"
| "same_shape (PySet vs) (PySet vs') = (length vs = length vs')"
| "same_shape (Instance c kvs) (Instance c' kvs') = (c = c' \<and> map fst kvs = map fst kvs')"
| "same_shape _ _ = False"

fun deep_copy_of ::
  "nat \<Rightarrow> addr \<Rightarrow> (addr \<Rightarrow> obj option) \<Rightarrow> val \<Rightarrow> (addr \<Rightarrow> obj option) \<Rightarrow> val \<Rightarrow> bool" where
  "deep_copy_of 0 n s x s' y = False"
| "deep_copy_of (Suc k) n s (VRef a) s' y =
     (case y of
        VRef b \<Rightarrow>
          n \<le> b \<and>
          (case s a of
             None \<Rightarrow> False
           | Some ob \<Rightarrow>
               (case s' b of
                  None \<Rightarrow> False
                | Some ob' \<Rightarrow>
                    same_shape ob ob' \<and>
                    list_all2 (\<lambda>c c'. deep_copy_of k n s c s' c') (children ob) (children ob')))
      | _ \<Rightarrow> False)"
| "deep_copy_of (Suc k) n s x s' y = (y = x)"

section \<open>Runs\<close>

text \<open>The state in which \<open>app\<close> is called: the module is loaded and the start is logged.\<close>

definition started :: world where
  "started = log_call Info ''application_started'' [] initial_world"

text \<open>
  Four engines to run the script with: one that finds a channel named \<open>@\<close> and
  downloads, one whose operations raise \<open>DownloadError\<close>, one whose operations raise
  an exception of another class, and one whose operations raise \<open>ValueError\<close>.
\<close>

definition ydl_fine :: engine where
  "ydl_fine =
     \<lparr>extract_info = (\<lambda>s p url. Inr (Some [''channel'' \<mapsto> Some ''@''])),
      download = (\<lambda>s p urls. Inr ())\<rparr>"




text \<open>Two configurations, built one after the other in the initial state.\<close>

definition first_config :: "val \<times> world" where
  "first_config = get_base_ydl_params (VRef 0) initial_world"


section \<open>Properties of the URL classifier\<close>

lemma startswith_iff: "startswith s p \<longleftrightarrow> (\<exists>r. s = p @ r)"
  unfolding startswith_def
  by (metis append_eq_conv_conj append_take_drop_id)

lemma endswith_iff: "endswith s p \<longleftrightarrow> (\<exists>r. s = r @ p)"
proof
  assume "endswith s p"
  then have "s = take (length s - length p) s @ p"
    unfolding endswith_def by (metis append_take_drop_id)
  then show "\<exists>r. s = r @ p" ..
next
  assume "\<exists>r. s = r @ p"
  then show "endswith s p" unfolding endswith_def by auto
qed

lemma host_of_None: "hostname p = None \<Longrightarrow> host_of p = ''''"
  by (simp add: host_of_def)

lemma domain_match_iff:
  "list_ex (\<lambda>domain. h = domain \<or> endswith h (''.'' @ domain)) valid_domains
   \<longleftrightarrow> (\<exists>d. d \<in> set valid_domains \<and> (h = d \<or> (\<exists>r. h = r @ ''.'' @ d)))"
  unfolding list_ex_iff endswith_iff by auto

lemma is_youtube_url_parsed:
  "urlparse (ensure_scheme u) = Inr p \<Longrightarrow>
   is_youtube_url u =
     Inr (\<exists>d. d \<in> set valid_domains \<and> (host_of p = d \<or> (\<exists>r. host_of p = r @ ''.'' @ d)))"
  unfolding is_youtube_url_def Let_def domain_match_iff by simp

lemma is_youtube_url_raises:
  "urlparse (ensure_scheme u) = Inl e \<Longrightarrow> is_youtube_url u = Inl e"
  by (simp add: is_youtube_url_def Let_def)

text \<open>
  Claim C2. \<open>is_youtube_url\<close> returns \<open>True\<close> exactly when the normalised URL parses
  and its host is one of the two allow-listed domains or ends with a dot followed by
  one of them. Whenever the normalised URL parses, the function returns a boolean; a
  result without a host counts as the empty host, and the answer is \<open>False\<close>.
\<close>

theorem is_youtube_url_iff_host:
  "(is_youtube_url u = Inr True \<longleftrightarrow>
      (\<exists>p. urlparse (ensure_scheme u) = Inr p \<and>
           (\<exists>d. d \<in> set valid_domains \<and> (host_of p = d \<or> (\<exists>r. host_of p = r @ ''.'' @ d)))))
   \<and> set valid_domains = {''youtube.com'', ''youtu.be''}
   \<and> (\<forall>p. urlparse (ensure_scheme u) = Inr p \<longrightarrow>
          (\<exists>b. is_youtube_url u = Inr b) \<and>
          (hostname p = None \<longrightarrow> host_of p = '''' \<and> is_youtube_url u = Inr False))"
proof (intro conjI allI impI)
  show "is_youtube_url u = Inr True \<longleftrightarrow>
      (\<exists>p. urlparse (ensure_scheme u) = Inr p \<and>
           (\<exists>d. d \<in> set valid_domains \<and> (host_of p = d \<or> (\<exists>r. host_of p = r @ ''.'' @ d))))"
  proof (cases "urlparse (ensure_scheme u)")
    case (Inl e)
    then show ?thesis by (simp add: is_youtube_url_raises)
  next
    case (Inr p)
    then show ?thesis by (simp only: is_youtube_url_parsed [OF Inr]) simp
  qed
next
  show "set valid_domains = {''youtube.com'', ''youtu.be''}"
    by (simp add: valid_domains_def)
next
  fix p assume "urlparse (ensure_scheme u) = Inr p"
  then show "\<exists>b. is_youtube_url u = Inr b" by (simp only: is_youtube_url_parsed) simp
next
  fix p assume "urlparse (ensure_scheme u) = Inr p" and "hostname p = None"
  then show "host_of p = []" by (simp add: host_of_None)
next
  fix p assume p: "urlparse (ensure_scheme u) = Inr p" and "hostname p = None"
  then have "host_of p = ''''" by (simp add: host_of_None)
  then show "is_youtube_url u = Inr False"
    unfolding is_youtube_url_parsed [OF p] by (simp add: valid_domains_def)
qed

theorem is_youtube_url_iff_host_witness:
  "is_youtube_url ''music.youtube.com/watch?v=abc123'' = Inr True
   \<and> is_youtube_url ''https://'' = Inr False"
proof
  let ?p = "\<lparr>scheme = ''https'', netloc = ''music.youtube.com'', path = ''/watch'',
             params = '''', query = ''v=abc123'', fragment = ''''\<rparr>"
  have p: "urlparse (ensure_scheme ''music.youtube.com/watch?v=abc123'') = Inr ?p"
    by code_simp
  have h: "host_of ?p = ''music'' @ ''.'' @ ''youtube.com''"
    by code_simp
  have d: "''youtube.com'' \<in> set valid_domains" by (simp add: valid_domains_def)
  have "\<exists>d. d \<in> set valid_domains \<and> (host_of ?p = d \<or> (\<exists>r. host_of ?p = r @ ''.'' @ d))"
    using h d by (intro exI [of _ "''youtube.com''"] conjI disjI2 exI [of _ "''music''"])
  with p have "\<exists>p. urlparse (ensure_scheme ''music.youtube.com/watch?v=abc123'') = Inr p \<and>
      (\<exists>d. d \<in> set valid_domains \<and> (host_of p = d \<or> (\<exists>r. host_of p = r @ ''.'' @ d)))"
    by (intro exI [of _ ?p] conjI)
  then show "is_youtube_url ''music.youtube.com/watch?v=abc123'' = Inr True"
    by (rule iffD2 [OF conjunct1 [OF is_youtube_url_iff_host]])
next
  let ?p = "\<lparr>scheme = ''https'', netloc = '''', path = '''',
             params = '''', query = '''', fragment = ''''\<rparr>"
  have p: "urlparse (ensure_scheme ''https://'') = Inr ?p"
    by code_simp
  have h: "hostname ?p = None"
    by code_simp
  have a: "\<forall>p. urlparse (ensure_scheme ''https://'') = Inr p \<longrightarrow>
          (\<exists>b. is_youtube_url ''https://'' = Inr b) \<and>
          (hostname p = None \<longrightarrow> host_of p = [] \<and> is_youtube_url ''https://'' = Inr False)"
    by (rule conjunct2 [OF conjunct2 [OF is_youtube_url_iff_host]])
  have b: "(\<exists>b. is_youtube_url ''https://'' = Inr b) \<and>
          (hostname ?p = None \<longrightarrow> host_of ?p = [] \<and> is_youtube_url ''https://'' = Inr False)"
    by (rule mp [OF spec [OF a] p])
  have c: "host_of ?p = [] \<and> is_youtube_url ''https://'' = Inr False"
    by (rule mp [OF conjunct2 [OF b] h])
  show "is_youtube_url ''https://'' = Inr False"
    by (rule conjunct2 [OF c])
qed

lemma is_single_video_parsed:
  "urlparse (ensure_scheme u) = Inr p \<Longrightarrow>
   is_single_video u =
     (if host_of p = ''youtu.be'' \<or> host_of p = ''www.youtu.be'' then Inr True
      else if (\<exists>r. path p = ''/watch'' @ r) \<or> (\<exists>r. path p = ''/shorts/'' @ r)
              \<or> (\<exists>r. path p = ''/live/'' @ r) then Inr True
      else if (\<exists>r. path p = ''/playlist'' @ r) then Inr False
      else Inl (ValueError (''Unsupported or invalid YouTube URL structure: '' @ [CHR 0x22]
                  @ ensure_scheme u @ [CHR 0x22])))"
  unfolding is_single_video_def Let_def startswith_iff by simp

lemma platform_url_parses:
  "is_youtube_url u = Inr b \<Longrightarrow> \<exists>p. urlparse (ensure_scheme u) = Inr p"
  by (cases "urlparse (ensure_scheme u)") (simp_all add: is_youtube_url_raises)

text \<open>
  Claim C1. For a URL of the platform, the normalised URL parses, and \<open>is_single_video\<close>
  answers by the first rule that applies: \<open>True\<close> for the short-link host whatever the
  path, \<open>True\<close> for a path that begins with \<open>/watch\<close>, \<open>/shorts/\<close> or \<open>/live/\<close>,
  \<open>False\<close> for a path that begins with \<open>/playlist\<close> on another host, and otherwise the
  \<open>ValueError\<close> whose message quotes the normalised URL. The five URLs the claim
  lists are the statement of the witness.
\<close>

theorem is_single_video_classifies:
  assumes "is_youtube_url u = Inr True"
  shows "\<exists>p. urlparse (ensure_scheme u) = Inr p \<and>
    (host_of p = ''youtu.be'' \<or> host_of p = ''www.youtu.be'' \<longrightarrow> is_single_video u = Inr True) \<and>
    ((\<exists>r. path p = ''/watch'' @ r) \<or> (\<exists>r. path p = ''/shorts/'' @ r) \<or> (\<exists>r. path p = ''/live/'' @ r)
       \<longrightarrow> is_single_video u = Inr True) \<and>
    (host_of p \<noteq> ''youtu.be'' \<and> host_of p \<noteq> ''www.youtu.be'' \<and> (\<exists>r. path p = ''/playlist'' @ r)
       \<longrightarrow> is_single_video u = Inr False) \<and>
    (host_of p \<noteq> ''youtu.be'' \<and> host_of p \<noteq> ''www.youtu.be''
     \<and> (\<nexists>r. path p = ''/watch'' @ r) \<and> (\<nexists>r. path p = ''/shorts/'' @ r)
     \<and> (\<nexists>r. path p = ''/live/'' @ r) \<and> (\<nexists>r. path p = ''/playlist'' @ r)
       \<longrightarrow> is_single_video u =
            Inl (ValueError (''Unsupported or invalid YouTube URL structure: '' @ [CHR 0x22]
                   @ ensure_scheme u @ [CHR 0x22])))"
proof -
  from assms obtain p where p: "urlparse (ensure_scheme u) = Inr p"
    using platform_url_parses by blast
  have no_overlap: "(\<exists>r. path p = ''/playlist'' @ r) \<Longrightarrow>
      \<not> ((\<exists>r. path p = ''/watch'' @ r) \<or> (\<exists>r. path p = ''/shorts/'' @ r)
         \<or> (\<exists>r. path p = ''/live/'' @ r))"
    by auto
  show ?thesis
  proof (intro exI [of _ p] conjI impI)
    show "urlparse (ensure_scheme u) = Inr p" by (rule p)
  next
    assume "host_of p = ''youtu.be'' \<or> host_of p = ''www.youtu.be''"
    then show "is_single_video u = Inr True"
      by (simp only: is_single_video_parsed [OF p] if_True)
  next
    assume "(\<exists>r. path p = ''/watch'' @ r) \<or> (\<exists>r. path p = ''/shorts/'' @ r)
            \<or> (\<exists>r. path p = ''/live/'' @ r)"
    then show "is_single_video u = Inr True"
      by (simp only: is_single_video_parsed [OF p] if_True if_cancel)
  next
    assume a: "host_of p \<noteq> ''youtu.be'' \<and> host_of p \<noteq> ''www.youtu.be''
               \<and> (\<exists>r. path p = ''/playlist'' @ r)"
    then have "\<not> (host_of p = ''youtu.be'' \<or> host_of p = ''www.youtu.be'')" by simp
    moreover from a have pl: "\<exists>r. path p = ''/playlist'' @ r" by simp
    moreover note no_overlap [OF pl]
    ultimately show "is_single_video u = Inr False"
      by (simp only: is_single_video_parsed [OF p] if_True if_False)
  next
    assume a: "host_of p \<noteq> ''youtu.be'' \<and> host_of p \<noteq> ''www.youtu.be''
     \<and> (\<nexists>r. path p = ''/watch'' @ r) \<and> (\<nexists>r. path p = ''/shorts/'' @ r)
     \<and> (\<nexists>r. path p = ''/live/'' @ r) \<and> (\<nexists>r. path p = ''/playlist'' @ r)"
    then have "\<not> (host_of p = ''youtu.be'' \<or> host_of p = ''www.youtu.be'')"
      and "\<not> ((\<exists>r. path p = ''/watch'' @ r) \<or> (\<exists>r. path p = ''/shorts/'' @ r)
         \<or> (\<exists>r. path p = ''/live/'' @ r))"
      and "\<not> (\<exists>r. path p = ''/playlist'' @ r)"
      by simp_all
    then show "is_single_video u =
            Inl (ValueError (''Unsupported or invalid YouTube URL structure: '' @ [CHR 0x22]
                   @ ensure_scheme u @ [CHR 0x22]))"
      by (simp only: is_single_video_parsed [OF p] if_False)
  qed
qed

theorem is_single_video_classifies_witness:
  "is_single_video ''https://youtu.be/abc123'' = Inr True
   \<and> is_single_video ''https://www.youtube.com/watch?v=abc123'' = Inr True
   \<and> is_single_video ''https://www.youtube.com/shorts/abc123'' = Inr True
   \<and> is_single_video ''https://www.youtube.com/playlist?list=xyz'' = Inr False
   \<and> is_single_video ''https://www.youtube.com/some/other/path'' =
       Inl (ValueError (''Unsupported or invalid YouTube URL structure: '' @ [CHR 0x22]
              @ ''https://www.youtube.com/some/other/path'' @ [CHR 0x22]))"
proof (intro conjI)
  let ?u = "''https://youtu.be/abc123''"
  let ?p = "\<lparr>scheme = ''https'', netloc = ''youtu.be'', path = ''/abc123'',
             params = '''', query = '''', fragment = ''''\<rparr>"
  have y: "is_youtube_url ?u = Inr True" by code_simp
  have e: "urlparse (ensure_scheme ?u) = Inr ?p" by code_simp
  have h: "host_of ?p = ''youtu.be''" by code_simp
  from is_single_video_classifies [OF y] obtain p
    where p: "urlparse (ensure_scheme ?u) = Inr p"
      and c: "host_of p = ''youtu.be'' \<or> host_of p = ''www.youtu.be'' \<longrightarrow> is_single_video ?u = Inr True"
    by (elim exE conjE) (rule that)
  from p e have "p = ?p" by simp
  with c h show "is_single_video ?u = Inr True" by simp
next
  let ?u = "''https://www.youtube.com/watch?v=abc123''"
  let ?p = "\<lparr>scheme = ''https'', netloc = ''www.youtube.com'', path = ''/watch'',
             params = '''', query = ''v=abc123'', fragment = ''''\<rparr>"
  have y: "is_youtube_url ?u = Inr True" by code_simp
  have e: "urlparse (ensure_scheme ?u) = Inr ?p" by code_simp
  from is_single_video_classifies [OF y] obtain p
    where p: "urlparse (ensure_scheme ?u) = Inr p"
      and c: "(\<exists>r. path p = ''/watch'' @ r) \<or> (\<exists>r. path p = ''/shorts/'' @ r)
              \<or> (\<exists>r. path p = ''/live/'' @ r) \<longrightarrow> is_single_video ?u = Inr True"
    by (elim exE conjE) (rule that)
  from p e have "p = ?p" by simp
  with c show "is_single_video ?u = Inr True" by simp
next
  let ?u = "''https://www.youtube.com/shorts/abc123''"
  let ?p = "\<lparr>scheme = ''https'', netloc = ''www.youtube.com'', path = ''/shorts/abc123'',
             params = '''', query = '''', fragment = ''''\<rparr>"
  have y: "is_youtube_url ?u = Inr True" by code_simp
  have e: "urlparse (ensure_scheme ?u) = Inr ?p" by code_simp
  from is_single_video_classifies [OF y] obtain p
    where p: "urlparse (ensure_scheme ?u) = Inr p"
      and c: "(\<exists>r. path p = ''/watch'' @ r) \<or> (\<exists>r. path p = ''/shorts/'' @ r)
              \<or> (\<exists>r. path p = ''/live/'' @ r) \<longrightarrow> is_single_video ?u = Inr True"
    by (elim exE conjE) (rule that)
  from p e have "p = ?p" by simp
  with c show "is_single_video ?u = Inr True" by simp
next
  let ?u = "''https://www.youtube.com/playlist?list=xyz''"
  let ?p = "\<lparr>scheme = ''https'', netloc = ''www.youtube.com'', path = ''/playlist'',
             params = '''', query = ''list=xyz'', fragment = ''''\<rparr>"
  have y: "is_youtube_url ?u = Inr True" by code_simp
  have e: "urlparse (ensure_scheme ?u) = Inr ?p" by code_simp
  have h: "host_of ?p = ''www.youtube.com''" by code_simp
  from is_single_video_classifies [OF y] obtain p
    where p: "urlparse (ensure_scheme ?u) = Inr p"
      and c: "host_of p \<noteq> ''youtu.be'' \<and> host_of p \<noteq> ''www.youtu.be''
              \<and> (\<exists>r. path p = ''/playlist'' @ r) \<longrightarrow> is_single_video ?u = Inr False"
    by (elim exE conjE) (rule that)
  from p e have "p = ?p" by simp
  with c h show "is_single_video ?u = Inr False" by simp
next
  let ?u = "''https://www.youtube.com/some/other/path''"
  let ?p = "\<lparr>scheme = ''https'', netloc = ''www.youtube.com'', path = ''/some/other/path'',
             params = '''', query = '''', fragment = ''''\<rparr>"
  have y: "is_youtube_url ?u = Inr True" by code_simp
  have e: "urlparse (ensure_scheme ?u) = Inr ?p" by code_simp
  have h: "host_of ?p = ''www.youtube.com''" by code_simp
  have s: "ensure_scheme ?u = ?u" by code_simp
  from is_single_video_classifies [OF y] obtain p
    where p: "urlparse (ensure_scheme ?u) = Inr p"
      and c: "host_of p \<noteq> ''youtu.be'' \<and> host_of p \<noteq> ''www.youtu.be''
     \<and> (\<nexists>r. path p = ''/watch'' @ r) \<and> (\<nexists>r. path p = ''/shorts/'' @ r)
     \<and> (\<nexists>r. path p = ''/live/'' @ r) \<and> (\<nexists>r. path p = ''/playlist'' @ r)
       \<longrightarrow> is_single_video ?u =
            Inl (ValueError (''Unsupported or invalid YouTube URL structure: '' @ [CHR 0x22]
                   @ ensure_scheme ?u @ [CHR 0x22]))"
    by (elim exE conjE) (rule that)
  from p e have "p = ?p" by simp
  with c h s show "is_single_video ?u =
       Inl (ValueError (''Unsupported or invalid YouTube URL structure: '' @ [CHR 0x22]
              @ ?u @ [CHR 0x22]))" by simp
qed

text \<open>
  Claim C3, as stated, fails: \<open>ftp://youtube.com/watch?v=abc123\<close> has a network scheme,
  and \<open>ensure_scheme\<close> does not return it unchanged.
\<close>

theorem ensure_scheme_other_scheme_counterexample:
  "spec_has_network_scheme ''ftp://youtube.com/watch?v=abc123''
   \<and> ensure_scheme ''ftp://youtube.com/watch?v=abc123'' \<noteq> ''ftp://youtube.com/watch?v=abc123''"
  by code_simp

text \<open>
  Claim C3, amended. \<open>ensure_scheme\<close> prepends \<open>https://\<close> once to every string that
  begins with neither \<open>http://\<close> nor \<open>https://\<close>, returns every string that begins with
  one of the two unchanged, and is idempotent.
\<close>

theorem ensure_scheme_prefix:
  "((\<nexists>r. u = ''http://'' @ r) \<and> (\<nexists>r. u = ''https://'' @ r) \<longrightarrow> ensure_scheme u = ''https://'' @ u)
   \<and> ((\<exists>r. u = ''http://'' @ r) \<or> (\<exists>r. u = ''https://'' @ r) \<longrightarrow> ensure_scheme u = u)
   \<and> ensure_scheme (ensure_scheme u) = ensure_scheme u"
  unfolding ensure_scheme_def startswith_iff by auto

theorem ensure_scheme_prefix_witness:
  "ensure_scheme ''youtube.com/watch?v=XYZ'' = ''https://youtube.com/watch?v=XYZ''
   \<and> ensure_scheme ''http://youtu.be/abc123'' = ''http://youtu.be/abc123''"
  using ensure_scheme_prefix [of "''youtube.com/watch?v=XYZ''"]
        ensure_scheme_prefix [of "''http://youtu.be/abc123''"]
  by simp


section \<open>Properties of the log adapter and of the author label\<close>


lemma remove_first_prefix: "old \<noteq> [] \<Longrightarrow> remove_first old (old @ rest) = rest"
  by (cases old) (simp_all add: startswith_def)

lemma remove_first_absent:
  "(\<nexists>a b. s = a @ old @ b) \<Longrightarrow> remove_first old s = s"
proof (induction s)
  case Nil
  then show ?case by simp
next
  case (Cons x xs)
  have "\<not> startswith (x # xs) old"
  proof
    assume "startswith (x # xs) old"
    then obtain r where "x # xs = old @ r" unfolding startswith_iff ..
    then have "x # xs = [] @ old @ r" by simp
    with Cons.prems show False by blast
  qed
  moreover have "\<nexists>a b. xs = a @ old @ b"
  proof
    assume "\<exists>a b. xs = a @ old @ b"
    then obtain a b where "xs = a @ old @ b" by blast
    then have "x # xs = (x # a) @ old @ b" by simp
    with Cons.prems show False by blast
  qed
  ultimately show ?case using Cons.IH by simp
qed

lemma warning_blank: "strip msg = [] \<Longrightarrow> YtDlpStructlogAdapter_warning msg = None"
  by (simp add: YtDlpStructlogAdapter_warning_def)

lemma warning_leading_marker:
  assumes "strip (''WARNING:'' @ rest) \<noteq> []"
  shows "YtDlpStructlogAdapter_warning (''WARNING:'' @ rest) =
     Some (Warning, ''yt_dlp_warning'', [(''detail'', strip rest)])"
proof -
  have rf: "remove_first ''WARNING:'' (''WARNING:'' @ rest) = rest"
    by (rule remove_first_prefix) simp
  show ?thesis
    unfolding YtDlpStructlogAdapter_warning_def Let_def rf
    using assms by (simp only: if_False)
qed

lemma warning_no_marker:
  "strip msg \<noteq> [] \<Longrightarrow> (\<nexists>a b. msg = a @ ''WARNING:'' @ b) \<Longrightarrow>
   YtDlpStructlogAdapter_warning msg = Some (Warning, ''yt_dlp_warning'', [(''detail'', strip msg)])"
  unfolding YtDlpStructlogAdapter_warning_def Let_def
  by (simp add: remove_first_absent)

lemma error_blank: "strip msg = [] \<Longrightarrow> YtDlpStructlogAdapter_error msg = None"
  by (simp add: YtDlpStructlogAdapter_error_def)

lemma error_leading_marker:
  assumes "strip (''ERROR:'' @ rest) \<noteq> []"
  shows "YtDlpStructlogAdapter_error (''ERROR:'' @ rest) =
     Some (Error, ''yt_dlp_error'', [(''detail'', strip rest)])"
proof -
  have rf: "remove_first ''ERROR:'' (''ERROR:'' @ rest) = rest"
    by (rule remove_first_prefix) simp
  show ?thesis
    unfolding YtDlpStructlogAdapter_error_def Let_def rf
    using assms by (simp only: if_False)
qed

lemma error_no_marker:
  "strip msg \<noteq> [] \<Longrightarrow> (\<nexists>a b. msg = a @ ''ERROR:'' @ b) \<Longrightarrow>
   YtDlpStructlogAdapter_error msg = Some (Error, ''yt_dlp_error'', [(''detail'', strip msg)])"
  unfolding YtDlpStructlogAdapter_error_def Let_def
  by (simp add: remove_first_absent)

text \<open>
  Claim C8 at a message whose marker is not at the front: the first occurrence is removed
  all the same, on the warning channel and on the error channel. The lemmas before say
  what the claim says where the marker leads or is absent.
\<close>

theorem warning_removes_inner_marker:
  "YtDlpStructlogAdapter_warning ''disk WARNING: low'' =
     Some (Warning, ''yt_dlp_warning'', [(''detail'', ''disk  low'')])
   \<and> YtDlpStructlogAdapter_error ''disk ERROR: full'' =
     Some (Error, ''yt_dlp_error'', [(''detail'', ''disk  full'')])"
  by code_simp

lemma author_of_eq:
  "author_of i =
     (let a = (case find (\<lambda>s. s \<noteq> [])
                      (List.map_filter (info_get i)
                         [''channel'', ''uploader'', ''creator'', ''uploader_id'']) of
                 None \<Rightarrow> ''Unknown Author''
               | Some s \<Rightarrow> s)
      in case a of c # r \<Rightarrow> if c = CHR ''@'' then r else a | [] \<Rightarrow> a)"
  unfolding author_of_def py_or_def Let_def List.map_filter_def startswith_def
  by (cases "info_get i ''channel''"; cases "info_get i ''uploader''";
      cases "info_get i ''creator''"; cases "info_get i ''uploader_id''")
     (simp_all split: list.splits)

text \<open>
  Claim C4. The author is the first value among \<open>channel\<close>, \<open>uploader\<close>, \<open>creator\<close> and
  \<open>uploader_id\<close> that is present, not \<open>None\<close> and not empty, or \<open>Unknown Author\<close> when there
  is none; after that one leading \<open>@\<close> is dropped.
\<close>

theorem author_of_first_nonempty:
  "author_of i =
     (let a = (case find (\<lambda>s. s \<noteq> [])
                      (List.map_filter (info_get i)
                         [''channel'', ''uploader'', ''creator'', ''uploader_id'']) of
                 None \<Rightarrow> ''Unknown Author''
               | Some s \<Rightarrow> s)
      in case a of c # r \<Rightarrow> if c = CHR ''@'' then r else a | [] \<Rightarrow> a)"
  by (rule author_of_eq)

theorem author_of_first_nonempty_witness:
  "author_of [''channel'' \<mapsto> Some '''', ''uploader'' \<mapsto> Some ''@JohnDoe''] = ''JohnDoe''
   \<and> author_of Map.empty = ''Unknown Author''
   \<and> author_of [''channel'' \<mapsto> None, ''uploader'' \<mapsto> Some '''', ''creator'' \<mapsto> Some '''',
                 ''uploader_id'' \<mapsto> None] = ''Unknown Author''
   \<and> author_of [''creator'' \<mapsto> Some ''@@both''] = ''@both''"
  using author_of_first_nonempty [of "[''channel'' \<mapsto> Some '''', ''uploader'' \<mapsto> Some ''@JohnDoe'']"]
        author_of_first_nonempty [of Map.empty]
        author_of_first_nonempty [of "[''channel'' \<mapsto> None, ''uploader'' \<mapsto> Some '''',
                 ''creator'' \<mapsto> Some '''', ''uploader_id'' \<mapsto> None]"]
        author_of_first_nonempty [of "[''creator'' \<mapsto> Some ''@@both'']"]
  by (simp add: info_get_def List.map_filter_def)

section \<open>Copying leaves the existing objects alone\<close>

lemma children_rebuild_subset: "set (children (rebuild ob vs)) \<subseteq> set vs"
  by (cases ob) (auto dest: set_zip_rightD)

lemma children_rebuild_Nil [simp]: "children (rebuild ob []) = []"
  by (cases ob) simp_all

lemma copied_atom [simp]:
  "copied m VNone" "copied m (VBool b)" "copied m (VInt i)" "copied m (VStr s)"
  by (simp_all add: copied_def)

lemma map_le_Some: "m \<subseteq>\<^sub>m m' \<Longrightarrow> m k = Some v \<Longrightarrow> m' k = Some v"
  unfolding map_le_def by (drule bspec [of _ _ k]) (auto simp: dom_def)

lemma copied_mono: "copied m v \<Longrightarrow> m \<subseteq>\<^sub>m m' \<Longrightarrow> copied m' v"
proof (cases v)
  case (VRef a)
  assume "copied m v" and le: "m \<subseteq>\<^sub>m m'"
  with VRef obtain k where "m k = Some a" by (auto simp: copied_def ran_def)
  with le have "m' k = Some a" by (rule map_le_Some)
  then show ?thesis using VRef by (auto simp: copied_def ran_def)
qed (simp_all add: copied_def)

lemma copied_fresh: "copies_ok n m w \<Longrightarrow> copied m v \<Longrightarrow> fresh_val n v"
  unfolding copied_def fresh_val_def copies_ok_def ran_def
  by (cases v) auto

lemma frame_refl [simp]: "frame n w w"
  by (simp add: frame_def)

lemma same_rest_refl [simp]: "same_rest w w"
  by (simp add: same_rest_def)

lemma frame_trans: "frame n w w1 \<Longrightarrow> frame n w1 w2 \<Longrightarrow> frame n w w2"
  by (simp add: frame_def)

lemma same_rest_trans: "same_rest w w1 \<Longrightarrow> same_rest w1 w2 \<Longrightarrow> same_rest w w2"
  by (simp add: same_rest_def)

lemma copies_ok_alloc:
  assumes inv: "copies_ok n memo w" and n: "n \<le> next_addr w" and none: "memo a = None"
  shows "copies_ok n (memo(a \<mapsto> next_addr w)) (snd (alloc (rebuild ob []) w))"
proof -
  have le: "memo \<subseteq>\<^sub>m memo(a \<mapsto> next_addr w)"
    using none by (simp add: map_le_def dom_def)
  show ?thesis
    unfolding copies_ok_def
  proof (intro allI impI)
    fix b y assume m: "(memo(a \<mapsto> next_addr w)) b = Some y"
    show "n \<le> y \<and> y < next_addr (snd (alloc (rebuild ob []) w)) \<and>
       (\<forall>ob'. objs (snd (alloc (rebuild ob []) w)) y = Some ob' \<longrightarrow>
             (\<forall>v\<in>set (children ob'). copied (memo(a \<mapsto> next_addr w)) v))"
    proof (cases "b = a")
      case True
      with m have "y = next_addr w" by simp
      then show ?thesis using n by (simp add: alloc_def)
    next
      case False
      with m have mb: "memo b = Some y" by simp
      with inv have y: "n \<le> y" "y < next_addr w"
        and ch: "\<forall>ob'. objs w y = Some ob' \<longrightarrow> (\<forall>v\<in>set (children ob'). copied memo v)"
        by (auto simp: copies_ok_def)
      from y have "objs (snd (alloc (rebuild ob []) w)) y = objs w y"
        by (simp add: alloc_def)
      with y ch show ?thesis
        by (auto simp: alloc_def intro: copied_mono [OF _ le])
    qed
  qed
qed

lemma copies_ok_finish:
  assumes inv: "copies_ok n memo2 w2" and vs: "\<forall>v \<in> set vs. copied memo2 v"
  shows "copies_ok n memo2 (w2\<lparr>objs := (objs w2)(y \<mapsto> rebuild ob vs)\<rparr>)"
  unfolding copies_ok_def
proof (intro allI impI conjI)
  fix b z assume m: "memo2 b = Some z"
  from inv m show "n \<le> z" by (auto simp: copies_ok_def)
  from inv m show "z < next_addr (w2\<lparr>objs := (objs w2)(y \<mapsto> rebuild ob vs)\<rparr>)"
    by (auto simp: copies_ok_def)
next
  fix b z ob' assume m: "memo2 b = Some z"
    and o: "objs (w2\<lparr>objs := (objs w2)(y \<mapsto> rebuild ob vs)\<rparr>) z = Some ob'"
  show "\<forall>v\<in>set (children ob'). copied memo2 v"
  proof (cases "z = y")
    case True
    with o have "ob' = rebuild ob vs" by simp
    then show ?thesis using vs children_rebuild_subset [of ob vs] by auto
  next
    case False
    with o have "objs w2 z = Some ob'" by simp
    with inv m show ?thesis by (auto simp: copies_ok_def)
  qed
qed

lemma deepcopy_frame_aux:
  "(deepcopy k x memo w = Some (y, memo', w') \<longrightarrow> n \<le> next_addr w \<longrightarrow> copies_ok n memo w \<longrightarrow>
      copies_ok n memo' w' \<and> next_addr w \<le> next_addr w' \<and> frame n w w' \<and> copied memo' y
      \<and> same_rest w w' \<and> memo \<subseteq>\<^sub>m memo')"
  "(deepcopy_all k xs memo w = Some (ys, memo', w') \<longrightarrow> n \<le> next_addr w \<longrightarrow> copies_ok n memo w \<longrightarrow>
      copies_ok n memo' w' \<and> next_addr w \<le> next_addr w' \<and> frame n w w'
      \<and> (\<forall>v \<in> set ys. copied memo' v) \<and> same_rest w w' \<and> memo \<subseteq>\<^sub>m memo')"
proof (induction k x memo w and k xs memo w arbitrary: y memo' w' and ys memo' w'
       rule: deepcopy_deepcopy_all.induct)
  case (1 x memo w)
  then show ?case by simp
next
  case (2 k a memo w)
  show ?case
  proof (intro impI)
    assume dc: "deepcopy (Suc k) (VRef a) memo w = Some (y, memo', w')"
      and n: "n \<le> next_addr w" and inv: "copies_ok n memo w"
    show "copies_ok n memo' w' \<and> next_addr w \<le> next_addr w' \<and> frame n w w' \<and> copied memo' y
      \<and> same_rest w w' \<and> memo \<subseteq>\<^sub>m memo'"
    proof (cases "memo a")
      case (Some z)
      with dc have "y = VRef z" "memo' = memo" "w' = w" by simp_all
      moreover from Some have "copied memo (VRef z)" by (auto simp: copied_def ran_def)
      ultimately show ?thesis using inv by simp
    next
      case None
      with dc obtain ob where ob: "objs w a = Some ob"
        by (cases "objs w a") simp_all
      let ?y = "next_addr w"
      let ?w1 = "snd (alloc (rebuild ob []) w)"
      let ?m1 = "memo(a \<mapsto> ?y)"
      from dc None ob obtain vs memo2 w2
        where rec: "deepcopy_all k (children ob) ?m1 ?w1 = Some (vs, memo2, w2)"
          and res: "y = VRef ?y" "memo' = memo2"
                   "w' = w2\<lparr>objs := (objs w2)(?y \<mapsto> rebuild ob vs)\<rparr>"
        by (auto simp: Let_def split: option.splits)
      have n1: "n \<le> next_addr ?w1" using n by (simp add: alloc_def)
      have inv1: "copies_ok n ?m1 ?w1" by (rule copies_ok_alloc [OF inv n None])
      from "2.IH"(1) [OF None ob refl refl, of vs memo2 w2]
        rec [unfolded fun_upd_def] n1 inv1 [unfolded fun_upd_def]
      have IH: "copies_ok n memo2 w2" "next_addr ?w1 \<le> next_addr w2" "frame n ?w1 w2"
        "\<forall>v \<in> set vs. copied memo2 v" "same_rest ?w1 w2"
        "(\<lambda>b. if b = a then Some ?y else memo b) \<subseteq>\<^sub>m memo2"
        by simp_all
      from IH(6) have le1: "?m1 \<subseteq>\<^sub>m memo2" by (simp add: fun_upd_def)
      have "copies_ok n memo' w'"
        unfolding res by (rule copies_ok_finish [OF IH(1) IH(4)])
      moreover have "next_addr w \<le> next_addr w'"
        using IH(2) unfolding res by (simp add: alloc_def)
      moreover have "frame n w w'"
        using IH(3) n unfolding res frame_def by (auto simp: alloc_def)
      moreover have "copied memo' y"
      proof -
        have "?m1 a = Some ?y" by simp
        with le1 have "memo2 a = Some ?y" by (rule map_le_Some)
        then show ?thesis unfolding res by (auto simp: copied_def ran_def)
      qed
      moreover have "same_rest w w'"
        using IH(5) unfolding res same_rest_def by (simp add: alloc_def)
      moreover have "memo \<subseteq>\<^sub>m memo'"
      proof -
        have "memo \<subseteq>\<^sub>m ?m1" using None by (simp add: map_le_def dom_def)
        then show ?thesis unfolding res using le1 by (rule map_le_trans)
      qed
      ultimately show ?thesis by simp
    qed
  qed
next
  case "3_1"
  then show ?case by auto
next
  case "3_2"
  then show ?case by auto
next
  case "3_3"
  then show ?case by auto
next
  case "3_4"
  then show ?case by auto
next
  case (4 k memo w)
  then show ?case by auto
next
  case (5 k x xs memo w)
  show ?case
  proof (intro impI)
    assume dc: "deepcopy_all k (x # xs) memo w = Some (ys, memo', w')"
      and n: "n \<le> next_addr w" and inv: "copies_ok n memo w"
    from dc obtain y1 m1 w1 ys2
      where r1: "deepcopy k x memo w = Some (y1, m1, w1)"
        and r2: "deepcopy_all k xs m1 w1 = Some (ys2, memo', w')"
        and ys: "ys = y1 # ys2"
      by (auto split: option.splits)
    from "5.IH"(1) [of y1 m1 w1] r1 n inv
    have A: "copies_ok n m1 w1" "next_addr w \<le> next_addr w1" "frame n w w1" "copied m1 y1"
      "same_rest w w1" "memo \<subseteq>\<^sub>m m1" by simp_all
    from A(2) n have n1: "n \<le> next_addr w1" by simp
    from "5.IH"(2) [OF r1 refl refl, of ys2 memo' w'] r2 n1 A(1)
    have B: "copies_ok n memo' w'" "next_addr w1 \<le> next_addr w'" "frame n w1 w'"
      "\<forall>v \<in> set ys2. copied memo' v" "same_rest w1 w'" "m1 \<subseteq>\<^sub>m memo'" by simp_all
    have "copied memo' y1" by (rule copied_mono [OF A(4) B(6)])
    moreover have "memo \<subseteq>\<^sub>m memo'" by (rule map_le_trans [OF A(6) B(6)])
    moreover have "frame n w w'" by (rule frame_trans [OF A(3) B(3)])
    moreover have "same_rest w w'" by (rule same_rest_trans [OF A(5) B(5)])
    ultimately show "copies_ok n memo' w' \<and> next_addr w \<le> next_addr w' \<and> frame n w w'
      \<and> (\<forall>v \<in> set ys. copied memo' v) \<and> same_rest w w' \<and> memo \<subseteq>\<^sub>m memo'"
      using A(2) B(1,2,4) ys by simp
  qed
qed

lemma deepcopy_params_props:
  assumes "deepcopy_params x w = Some (y, w')"
  shows "frame (next_addr w) w w' \<and> same_rest w w' \<and> next_addr w \<le> next_addr w'
         \<and> fresh_obj (next_addr w) w' y"
proof -
  from assms obtain memo' where dc: "deepcopy (Suc (next_addr w)) x Map.empty w = Some (y, memo', w')"
    by (auto simp: deepcopy_params_def split: option.splits)
  have inv0: "copies_ok (next_addr w) Map.empty w" by (simp add: copies_ok_def)
  from deepcopy_frame_aux(1) [of "Suc (next_addr w)" x Map.empty w y memo' w' "next_addr w"] dc inv0
  have P: "copies_ok (next_addr w) memo' w'" "next_addr w \<le> next_addr w'"
    "frame (next_addr w) w w'" "copied memo' y" "same_rest w w'"
    by simp_all
  have "fresh_val (next_addr w) y" by (rule copied_fresh [OF P(1) P(4)])
  moreover have "\<forall>a ob. y = VRef a \<longrightarrow> objs w' a = Some ob \<longrightarrow>
      (\<forall>c \<in> set (children ob). fresh_val (next_addr w) c)"
  proof (intro allI impI ballI)
    fix a ob c assume y: "y = VRef a" and o: "objs w' a = Some ob" and c: "c \<in> set (children ob)"
    from P(4) y obtain b where "memo' b = Some a" by (auto simp: copied_def ran_def)
    with P(1) o c have "copied memo' c" by (auto simp: copies_ok_def)
    then show "fresh_val (next_addr w) c" by (rule copied_fresh [OF P(1)])
  qed
  ultimately show ?thesis using P by (simp add: fresh_obj_def)
qed


section \<open>The download operations write to their own copy only\<close>


lemma update_values_subset:
  "set (map snd (AList.update k v kvs)) \<subseteq> insert v (set (map snd kvs))"
  by (induction kvs) auto

lemma setitem_props:
  assumes "setitem d key v w = Inr w'" and "fresh_val n d"
  shows "frame n w w' \<and> same_rest w w' \<and> next_addr w' = next_addr w"
proof -
  from assms(1) obtain a kvs where d: "d = VRef a" and o: "objs w a = Some (Dict kvs)"
    and w': "w' = w\<lparr>objs := (objs w)(a \<mapsto> Dict (AList.update key v kvs))\<rparr>"
    by (auto simp: setitem_def split: val.splits option.splits obj.splits)
  from assms(2) d have "n \<le> a" by (simp add: fresh_val_def)
  then show ?thesis unfolding w' by (simp add: frame_def same_rest_def)
qed

lemma setitem_fresh_obj:
  assumes s: "setitem d key v w = Inr w'" and v: "fresh_val n v" and x: "fresh_obj n w x"
  shows "fresh_obj n w' x"
proof -
  from s obtain a kvs where d: "d = VRef a" and o: "objs w a = Some (Dict kvs)"
    and w': "w' = w\<lparr>objs := (objs w)(a \<mapsto> Dict (AList.update key v kvs))\<rparr>"
    by (auto simp: setitem_def split: val.splits option.splits obj.splits)
  show ?thesis
    unfolding fresh_obj_def
  proof (intro conjI allI impI ballI)
    from x show "fresh_val n x" by (simp add: fresh_obj_def)
  next
    fix b ob c assume xb: "x = VRef b" and ob: "objs w' b = Some ob" and c: "c \<in> set (children ob)"
    show "fresh_val n c"
    proof (cases "b = a")
      case True
      with ob w' have "ob = Dict (AList.update key v kvs)" by simp
      with c have "c \<in> insert v (set (map snd kvs))"
        using update_values_subset [of key v kvs] by auto
      moreover from x xb o True have "\<forall>c \<in> set (map snd kvs). fresh_val n c"
        by (auto simp: fresh_obj_def)
      ultimately show ?thesis using v by auto
    next
      case False
      with ob w' have "objs w b = Some ob" by simp
      with x xb c show ?thesis by (auto simp: fresh_obj_def)
    qed
  qed
qed

lemma getitem_fresh:
  assumes g: "getitem d key w = Inr v" and d: "fresh_obj n w d"
  shows "fresh_val n v"
proof -
  from g obtain a kvs where da: "d = VRef a" and o: "objs w a = Some (Dict kvs)"
    and m: "map_of kvs key = Some v"
    by (auto simp: getitem_def split: val.splits option.splits obj.splits)
  from m have "v \<in> set (map snd kvs)" by (auto dest: map_of_SomeD intro: rev_image_eqI)
  with d da o show ?thesis by (auto simp: fresh_obj_def)
qed

lemma frame_calls [simp]: "frame n w (w'\<lparr>engine_calls := c\<rparr>) = frame n w w'"
  by (simp add: frame_def)

lemma download_playlist_frame:
  assumes "download_playlist ydl url params' cookies w = Some (r, w')"
  shows "frame (next_addr w) w w'"
proof -
  let ?n = "next_addr w"
  from assms obtain local_params w1
    where dc: "deepcopy_params params' w = Some (local_params, w1)"
    by (auto simp: download_playlist_def split: option.splits)
  from deepcopy_params_props [OF dc]
  have f1: "frame ?n w w1" and lp: "fresh_obj ?n w1 local_params" by simp_all
  show ?thesis
  proof (cases "getitem local_params ''outtmpl'' w1")
    case (Inl e)
    with assms dc have "w' = w1" by (simp add: download_playlist_def)
    with f1 show ?thesis by simp
  next
    case (Inr outtmpl)
    have fo: "fresh_val ?n outtmpl" by (rule getitem_fresh [OF Inr lp])
    show ?thesis
    proof (cases "setitem outtmpl ''default'' (VStr playlist_template) w1")
      case (Inl e)
      with assms dc Inr have "w' = w1" by (simp add: download_playlist_def)
      with f1 show ?thesis by simp
    next
      case s1: (Inr w2)
      from setitem_props [OF s1 fo] have f2: "frame ?n w1 w2" by simp
      have f12: "frame ?n w w2" by (rule frame_trans [OF f1 f2])
      have lp2: "fresh_val ?n local_params" using lp by (simp add: fresh_obj_def)
      show ?thesis
      proof (cases "cookies = ''''")
        case True
        with assms dc Inr s1 have "frame ?n w w' = frame ?n w w2"
          by (auto simp: download_playlist_def Let_def split: sum.splits)
        with f12 show ?thesis by simp
      next
        case False
        show ?thesis
        proof (cases "setitem local_params ''cookiefile'' (VStr cookies) w2")
          case (Inl e)
          with assms dc Inr s1 False have "w' = w2" by (simp add: download_playlist_def)
          with f12 show ?thesis by simp
        next
          case s2: (Inr w3)
          from setitem_props [OF s2 lp2] have f3: "frame ?n w2 w3" by simp
          have f13: "frame ?n w w3" by (rule frame_trans [OF f12 f3])
          from assms dc Inr s1 False s2 have "frame ?n w w' = frame ?n w w3"
            by (auto simp: download_playlist_def Let_def split: sum.splits)
          with f13 show ?thesis by simp
        qed
      qed
    qed
  qed
qed

lemma getitem_calls [simp]: "getitem d key (w\<lparr>engine_calls := c\<rparr>) = getitem d key w"
  by (cases d) (simp_all add: getitem_def)

lemma fresh_obj_calls [simp]: "fresh_obj n (w\<lparr>engine_calls := c\<rparr>) x = fresh_obj n w x"
  by (simp add: fresh_obj_def)

lemma frame_calls_left [simp]: "frame n (w\<lparr>engine_calls := c\<rparr>) w' = frame n w w'"
  by (simp add: frame_def)

lemma setitem_calls_props:
  assumes "setitem d key v (w\<lparr>engine_calls := c\<rparr>) = Inr w'" and "fresh_val n d"
  shows "frame n w w'"
  using setitem_props [OF assms] by simp

lemma download_single_video_frame:
  assumes "download_single_video ydl url params' cookies w = Some (r, w')"
  shows "frame (next_addr w) w w'"
proof -
  let ?n = "next_addr w"
  from assms obtain local_params w1
    where dc: "deepcopy_params params' w = Some (local_params, w1)"
    by (auto simp: download_single_video_def split: option.splits)
  from deepcopy_params_props [OF dc]
  have f1: "frame ?n w w1" and lp: "fresh_obj ?n w1 local_params" by simp_all
  have lpv: "fresh_val ?n local_params" using lp by (simp add: fresh_obj_def)
  let ?c = "if cookies \<noteq> '''' then setitem local_params ''cookiefile'' (VStr cookies) w1 else Inr w1"
  show ?thesis
  proof (cases ?c)
    case (Inl e)
    with assms dc have "w' = w1" by (simp add: download_single_video_def)
    with f1 show ?thesis by simp
  next
    case c: (Inr w2)
    have f2: "frame ?n w w2" and lp2: "fresh_obj ?n w2 local_params"
    proof -
      show "frame ?n w w2"
      proof (cases "cookies = ''''")
        case True with c f1 show ?thesis by simp
      next
        case False
        with c have "setitem local_params ''cookiefile'' (VStr cookies) w1 = Inr w2" by simp
        from setitem_props [OF this lpv] f1 show ?thesis by (auto intro: frame_trans)
      qed
      show "fresh_obj ?n w2 local_params"
      proof (cases "cookies = ''''")
        case True with c lp show ?thesis by simp
      next
        case False
        with c have "setitem local_params ''cookiefile'' (VStr cookies) w1 = Inr w2" by simp
        from setitem_fresh_obj [OF this _ lp] show ?thesis by (simp add: fresh_val_def)
      qed
    qed
    let ?w3 = "w2\<lparr>engine_calls := engine_calls w2 @ [ExtractInfo local_params url]\<rparr>"
    show ?thesis
    proof (cases "extract_info ydl (objs ?w3) local_params url")
      case (Inl e)
      with assms dc c have "w' = ?w3" by (simp add: download_single_video_def Let_def)
      with f2 show ?thesis by simp
    next
      case ei: (Inr i)
      show ?thesis
      proof (cases "getitem local_params ''outtmpl'' ?w3")
        case (Inl e)
        with assms dc c ei have "w' = ?w3" by (simp add: download_single_video_def Let_def)
        with f2 show ?thesis by simp
      next
        case g: (Inr outtmpl)
        then have "getitem local_params ''outtmpl'' w2 = Inr outtmpl" by simp
        from getitem_fresh [OF this lp2] have fo: "fresh_val ?n outtmpl" .
        let ?t = "VStr (author_of (case i of None \<Rightarrow> Map.empty | Some i' \<Rightarrow> i') @ '' - %(title)s.%(ext)s'')"
        show ?thesis
        proof (cases "setitem outtmpl ''default'' ?t ?w3")
          case (Inl e)
          with assms dc c ei g have "w' = ?w3" by (simp add: download_single_video_def Let_def)
          with f2 show ?thesis by simp
        next
          case s: (Inr w4)
          from setitem_calls_props [OF s fo] have "frame ?n w2 w4" .
          with f2 have f4: "frame ?n w w4" by (rule frame_trans)
          from assms dc c ei g s have "frame ?n w w' = frame ?n w w4"
            by (auto simp: download_single_video_def Let_def split: sum.splits)
          with f4 show ?thesis by simp
        qed
      qed
    qed
  qed
qed


section \<open>Copying the base configuration\<close>

text \<open>
  More fuel never changes a result, and the configuration that \<open>get_base_ydl_params\<close>
  builds nests four deep, so \<open>deepcopy_params\<close> returns on it in every state in which
  the logger is an object without attributes.
\<close>


lemma deepcopy_fuel_mono:
  "(deepcopy k x memo w = Some r \<longrightarrow> k \<le> k' \<longrightarrow> deepcopy k' x memo w = Some r)"
  "(deepcopy_all k xs memo w = Some rs \<longrightarrow> k \<le> k' \<longrightarrow> deepcopy_all k' xs memo w = Some rs)"
proof (induction k x memo w and k xs memo w arbitrary: r k' and rs k'
       rule: deepcopy_deepcopy_all.induct)
  case (1 x memo w)
  then show ?case by simp
next
  case (2 k a memo w)
  show ?case
  proof (intro impI)
    assume dc: "deepcopy (Suc k) (VRef a) memo w = Some r" and le: "Suc k \<le> k'"
    from le obtain j where k': "k' = Suc j" and kj: "k \<le> j" by (cases k') auto
    show "deepcopy k' (VRef a) memo w = Some r"
    proof (cases "memo a")
      case (Some z)
      with dc show ?thesis by (simp add: k')
    next
      case None
      with dc obtain ob where ob: "objs w a = Some ob"
        by (cases "objs w a") simp_all
      from dc None ob obtain res
        where rec: "deepcopy_all k (children ob) (memo(a \<mapsto> next_addr w))
                      (snd (alloc (rebuild ob []) w)) = Some res"
        by (auto simp: Let_def split: option.splits)
      from "2.IH"(1) [OF None ob refl refl, of res j] rec [unfolded fun_upd_def] kj
      have "deepcopy_all j (children ob) (\<lambda>b. if b = a then Some (next_addr w) else memo b)
              (snd (alloc (rebuild ob []) w)) = Some res"
        by simp
      then have "deepcopy_all j (children ob) (memo(a \<mapsto> next_addr w))
              (snd (alloc (rebuild ob []) w)) = Some res"
        by (simp add: fun_upd_def)
      with rec dc None ob show ?thesis by (simp add: k' Let_def)
    qed
  qed
next
  case "3_1"
  then show ?case by (cases k') auto
next
  case "3_2"
  then show ?case by (cases k') auto
next
  case "3_3"
  then show ?case by (cases k') auto
next
  case "3_4"
  then show ?case by (cases k') auto
next
  case (4 k memo w)
  then show ?case by simp
next
  case (5 k x xs memo w)
  show ?case
  proof (intro impI)
    assume dc: "deepcopy_all k (x # xs) memo w = Some rs" and le: "k \<le> k'"
    from dc obtain y1 m1 w1 ys2 m2 w2
      where r1: "deepcopy k x memo w = Some (y1, m1, w1)"
        and r2: "deepcopy_all k xs m1 w1 = Some (ys2, m2, w2)"
        and rs: "rs = (y1 # ys2, m2, w2)"
      by (auto split: option.splits)
    from "5.IH"(1) [of "(y1, m1, w1)" k'] r1 le
    have a: "deepcopy k' x memo w = Some (y1, m1, w1)" by simp
    from "5.IH"(2) [OF r1 refl refl, of "(ys2, m2, w2)" k'] r2 le
    have b: "deepcopy_all k' xs m1 w1 = Some (ys2, m2, w2)" by simp
    from a b rs show "deepcopy_all k' (x # xs) memo w = Some rs" by simp
  qed
qed

lemma base_params_props:
  assumes "get_base_ydl_params lg w = (base, w1)"
  shows "base = VRef (next_addr w + 11) \<and> next_addr w1 = next_addr w + 12
     \<and> frame (next_addr w) w w1 \<and> same_rest w w1
     \<and> (\<exists>kvs. objs w1 (next_addr w + 11) = Some (Dict kvs)
            \<and> map_of kvs ''outtmpl'' = Some (VRef (next_addr w + 1))
            \<and> map_of kvs ''cookiefile'' = None)
     \<and> objs w1 (next_addr w + 1) = Some (Dict [(''default'', VStr ''''), (''pl_thumbnail'', VStr '''')])"
  using assms
  by (auto simp: get_base_ydl_params_def alloc_def frame_def same_rest_def)

lemma base_copy_fuel4:
  assumes l: "l < next_addr w" and lo: "objs w l = Some (Instance c [])"
  shows "\<exists>memo w2 kvs.
     deepcopy (Suc (Suc (Suc (Suc 0)))) (fst (get_base_ydl_params (VRef l) w)) Map.empty
        (snd (get_base_ydl_params (VRef l) w)) = Some (VRef (next_addr w + 12), memo, w2)
     \<and> objs w2 (next_addr w + 12) = Some (Dict kvs)
     \<and> map_of kvs ''outtmpl'' = Some (VRef (next_addr w + 14))
     \<and> map_of kvs ''cookiefile'' = None
     \<and> objs w2 (next_addr w + 14) = Some (Dict [(''default'', VStr ''''), (''pl_thumbnail'', VStr '''')])"
  using l lo
  by (simp add: get_base_ydl_params_def alloc_def Let_def)

lemma base_copy:
  assumes l: "l < next_addr w" and lo: "objs w l = Some (Instance c [])"
    and g: "get_base_ydl_params (VRef l) w = (base, w1)"
  shows "\<exists>w2 kvs.
     deepcopy_params base w1 = Some (VRef (next_addr w1), w2)
     \<and> objs w2 (next_addr w1) = Some (Dict kvs)
     \<and> map_of kvs ''outtmpl'' = Some (VRef (next_addr w1 + 2))
     \<and> map_of kvs ''cookiefile'' = None
     \<and> objs w2 (next_addr w1 + 2) = Some (Dict [(''default'', VStr ''''), (''pl_thumbnail'', VStr '''')])"
proof -
  from base_params_props [OF g] have n1: "next_addr w1 = next_addr w + 12" by simp
  from base_copy_fuel4 [OF l lo] g obtain memo w2 kvs
    where dc: "deepcopy (Suc (Suc (Suc (Suc 0)))) base Map.empty w1
                 = Some (VRef (next_addr w + 12), memo, w2)"
      and f: "objs w2 (next_addr w + 12) = Some (Dict kvs)"
         "map_of kvs ''outtmpl'' = Some (VRef (next_addr w + 14))"
         "map_of kvs ''cookiefile'' = None"
         "objs w2 (next_addr w + 14) = Some (Dict [(''default'', VStr ''''), (''pl_thumbnail'', VStr '''')])"
    by auto
  have "Suc (Suc (Suc (Suc 0))) \<le> Suc (next_addr w1)" using n1 by simp
  with deepcopy_fuel_mono(1) [of "Suc (Suc (Suc (Suc 0)))" base Map.empty w1
        "(VRef (next_addr w + 12), memo, w2)" "Suc (next_addr w1)"] dc
  have "deepcopy (Suc (next_addr w1)) base Map.empty w1 = Some (VRef (next_addr w + 12), memo, w2)"
    by simp
  then have "deepcopy_params base w1 = Some (VRef (next_addr w1), w2)"
    by (simp add: deepcopy_params_def n1)
  with f n1 show ?thesis by (simp add: add.commute)
qed

text \<open>The copy of the base configuration is a deep copy of it.\<close>

lemma base_copy_deep_fuel4:
  assumes l: "l < next_addr w" and lo: "objs w l = Some (Instance c [])"
  shows "\<exists>memo w2.
     deepcopy (Suc (Suc (Suc (Suc 0)))) (fst (get_base_ydl_params (VRef l) w)) Map.empty
        (snd (get_base_ydl_params (VRef l) w)) = Some (VRef (next_addr w + 12), memo, w2)
     \<and> deep_copy_of (Suc (Suc (Suc (Suc 0)))) (next_addr w + 12)
          (objs (snd (get_base_ydl_params (VRef l) w))) (fst (get_base_ydl_params (VRef l) w))
          (objs w2) (VRef (next_addr w + 12))"
  using l lo
  by (simp add: get_base_ydl_params_def alloc_def Let_def)

lemma base_copy_deep:
  assumes l: "l < next_addr w" and lo: "objs w l = Some (Instance c [])"
    and g: "get_base_ydl_params (VRef l) w = (base, w1)"
    and dc: "deepcopy_params base w1 = Some (local_params, w2)"
  shows "deep_copy_of 4 (next_addr w1) (objs w1) base (objs w2) local_params"
proof -
  from base_params_props [OF g] have n1: "next_addr w1 = next_addr w + 12" by simp
  from base_copy_deep_fuel4 [OF l lo] g obtain memo w2'
    where d4: "deepcopy (Suc (Suc (Suc (Suc 0)))) base Map.empty w1
                 = Some (VRef (next_addr w + 12), memo, w2')"
      and c: "deep_copy_of (Suc (Suc (Suc (Suc 0)))) (next_addr w + 12) (objs w1) base
                (objs w2') (VRef (next_addr w + 12))"
    by auto
  have "Suc (Suc (Suc (Suc 0))) \<le> Suc (next_addr w1)" using n1 by simp
  with deepcopy_fuel_mono(1) [of "Suc (Suc (Suc (Suc 0)))" base Map.empty w1
        "(VRef (next_addr w + 12), memo, w2')" "Suc (next_addr w1)"] d4
  have "deepcopy (Suc (next_addr w1)) base Map.empty w1 = Some (VRef (next_addr w + 12), memo, w2')"
    by simp
  then have "deepcopy_params base w1 = Some (VRef (next_addr w + 12), w2')"
    by (simp add: deepcopy_params_def)
  with dc have "local_params = VRef (next_addr w + 12)" "w2 = w2'" by simp_all
  moreover have "(4::nat) = Suc (Suc (Suc (Suc 0)))" by simp
  ultimately show ?thesis using c n1 by (simp only:)
qed

text \<open>An entry of a dictionary that is immutable is an entry of its deep copy.\<close>

lemma related_entries:
  assumes "map fst kvs = map fst kvs'" and "list_all2 R (map snd kvs) (map snd kvs')"
    and "map_of kvs key = Some v"
  shows "\<exists>v'. map_of kvs' key = Some v' \<and> R v v'"
  using assms
proof (induction kvs arbitrary: kvs')
  case Nil
  then show ?case by simp
next
  case (Cons kv kvs)
  then obtain kv' rest where k': "kvs' = kv' # rest" by (cases kvs') auto
  with Cons.prems have f: "fst kv = fst kv'" and r: "R (snd kv) (snd kv')"
    and m: "map fst kvs = map fst rest" and a: "list_all2 R (map snd kvs) (map snd rest)"
    by simp_all
  show ?case
  proof (cases "fst kv = key")
    case True
    with Cons.prems(3) have "v = snd kv" by (cases kv) simp
    with True f r k' show ?thesis by (cases kv') auto
  next
    case False
    with Cons.prems(3) have "map_of kvs key = Some v" by (cases kv) simp
    from Cons.IH [OF m a this] obtain v' where "map_of rest key = Some v'" "R v v'" by blast
    with False f k' show ?thesis by (cases kv') auto
  qed
qed

lemma deep_copy_of_atom:
  "deep_copy_of k n s x s' y \<Longrightarrow> (\<forall>a. x \<noteq> VRef a) \<Longrightarrow> y = x"
  by (cases k; cases x) simp_all

lemma deep_copy_of_getitem:
  assumes d: "deep_copy_of k n (objs w) x (objs w') y"
    and g: "getitem x key w = Inr v" and v: "\<forall>a. v \<noteq> VRef a"
  shows "getitem y key w' = Inr v"
proof -
  from g obtain a kvs where x: "x = VRef a" and o: "objs w a = Some (Dict kvs)"
    and m: "map_of kvs key = Some v"
    by (auto simp: getitem_def split: val.splits option.splits obj.splits)
  from d x obtain j where k: "k = Suc j" by (cases k) simp_all
  from d x k o obtain b ob' where y: "y = VRef b" and o': "objs w' b = Some ob'"
    and sh: "same_shape (Dict kvs) ob'"
    and ch: "list_all2 (\<lambda>c c'. deep_copy_of j n (objs w) c (objs w') c') (map snd kvs) (children ob')"
    by (auto split: val.splits option.splits)
  from sh obtain kvs' where ob': "ob' = Dict kvs'" and keys: "map fst kvs = map fst kvs'"
    by (cases ob') simp_all
  from ch ob' have "list_all2 (\<lambda>c c'. deep_copy_of j n (objs w) c (objs w') c')
                      (map snd kvs) (map snd kvs')" by simp
  from related_entries [OF keys this m] obtain v'
    where m': "map_of kvs' key = Some v'" and r: "deep_copy_of j n (objs w) v (objs w') v'"
    by blast
  from deep_copy_of_atom [OF r v] have "v' = v" .
  with y o' ob' m' show ?thesis by (simp add: getitem_def)
qed

text \<open>An entry of a dictionary has its deep copy as the entry of the deep copy.\<close>

lemma deep_copy_of_getitem_child:
  assumes d: "deep_copy_of (Suc j) n (objs w) x (objs w') y"
    and g: "getitem x key w = Inr v"
  shows "\<exists>v'. getitem y key w' = Inr v' \<and> deep_copy_of j n (objs w) v (objs w') v'"
proof -
  from g obtain a kvs where x: "x = VRef a" and o: "objs w a = Some (Dict kvs)"
    and m: "map_of kvs key = Some v"
    by (auto simp: getitem_def split: val.splits option.splits obj.splits)
  from d x o obtain b ob' where y: "y = VRef b" and o': "objs w' b = Some ob'"
    and sh: "same_shape (Dict kvs) ob'"
    and ch: "list_all2 (\<lambda>c c'. deep_copy_of j n (objs w) c (objs w') c') (map snd kvs) (children ob')"
    by (auto split: val.splits option.splits)
  from sh obtain kvs' where ob': "ob' = Dict kvs'" and keys: "map fst kvs = map fst kvs'"
    by (cases ob') simp_all
  from ch ob' have "list_all2 (\<lambda>c c'. deep_copy_of j n (objs w) c (objs w') c')
                      (map snd kvs) (map snd kvs')" by simp
  from related_entries [OF keys this m] obtain v'
    where m': "map_of kvs' key = Some v'" and r: "deep_copy_of j n (objs w) v (objs w') v'"
    by blast
  with y o' ob' show ?thesis by (simp add: getitem_def)
qed

section \<open>The download operations on the base configuration\<close>

text \<open>
  On the configuration of \<open>get_base_ydl_params\<close> both operations return: what they hand
  to the engine, what they leave in their copy, and what they do to nothing else.
\<close>


lemma download_playlist_base:
  assumes l: "l < next_addr w" and lo: "objs w l = Some (Instance c [])"
    and g: "get_base_ydl_params (VRef l) w = (base, w1)"
  shows "\<exists>r w' local_params outtmpl.
      download_playlist ydl url base cookies w1 = Some (r, w')
    \<and> local_params = VRef (next_addr w1)
    \<and> frame (next_addr w1) w1 w'
    \<and> getitem local_params ''outtmpl'' w' = Inr outtmpl
    \<and> getitem outtmpl ''default'' w' = Inr (VStr playlist_template)
    \<and> playlist_template = ''%(channel)s - %(playlist_title)s/%(playlist_index)03d - %(title)s.%(ext)s''
    \<and> (cookies \<noteq> '''' \<longrightarrow> getitem local_params ''cookiefile'' w' = Inr (VStr cookies))
    \<and> (cookies = '''' \<longrightarrow> getitem local_params ''cookiefile'' w' = Inl (OtherException ''KeyError''))
    \<and> getitem base ''cookiefile'' w' = Inl (OtherException ''KeyError'')
    \<and> engine_calls w' = engine_calls w1 @ [Download local_params [url]]
    \<and> r = download ydl (objs w') local_params [url]"
proof -
  let ?n = "next_addr w1"
  from base_copy [OF l lo g] obtain w2 kvs
    where dc: "deepcopy_params base w1 = Some (VRef ?n, w2)"
      and o: "objs w2 ?n = Some (Dict kvs)"
      and m: "map_of kvs ''outtmpl'' = Some (VRef (?n + 2))" "map_of kvs ''cookiefile'' = None"
      and oo: "objs w2 (?n + 2) = Some (Dict [(''default'', VStr ''''), (''pl_thumbnail'', VStr '''')])"
    by auto
  let ?o = "Suc (Suc ?n)"
  from m(1) have m1: "map_of kvs ''outtmpl'' = Some (VRef ?o)" by simp
  from oo have oo': "objs w2 ?o = Some (Dict [(''default'', VStr []), (''pl_thumbnail'', VStr [])])"
    by simp
  from deepcopy_params_props [OF dc] have sr: "same_rest w1 w2" by simp
  then have calls: "engine_calls w2 = engine_calls w1" by (simp add: same_rest_def)
  have "download_playlist ydl url base cookies w1 \<noteq> None"
    using dc by (simp add: download_playlist_def)
  then obtain r w' where run: "download_playlist ydl url base cookies w1 = Some (r, w')"
    by (cases "download_playlist ydl url base cookies w1") auto
  have fr: "frame ?n w1 w'" by (rule download_playlist_frame [OF run])
  from base_params_props [OF g] obtain kvs0
    where b: "base = VRef (next_addr w + 11)" "?n = next_addr w + 12"
      and bo: "objs w1 (next_addr w + 11) = Some (Dict kvs0)" "map_of kvs0 ''cookiefile'' = None"
    by auto
  from fr b bo(1) have "objs w' (next_addr w + 11) = Some (Dict kvs0)" by (simp add: frame_def)
  with b bo(2) have bc: "getitem base ''cookiefile'' w' = Inl (OtherException ''KeyError'')"
    by (simp add: getitem_def)
  have pt: "playlist_template = ''%(channel)s - %(playlist_title)s/%(playlist_index)03d - %(title)s.%(ext)s''"
    by (simp add: playlist_template_def)
  let ?T = "VStr playlist_template"
  let ?w3 = "w2\<lparr>objs := (objs w2)(?o \<mapsto> Dict [(''default'', ?T), (''pl_thumbnail'', VStr '''')])\<rparr>"
  have g1: "getitem (VRef ?n) ''outtmpl'' w2 = Inr (VRef (?o))"
    using o m1 by (simp add: getitem_def)
  have s1: "setitem (VRef (?o)) ''default'' ?T w2 = Inr ?w3"
    using oo' by (simp add: setitem_def)
  have main: "getitem (VRef ?n) ''outtmpl'' w' = Inr (VRef (?o))
    \<and> getitem (VRef (?o)) ''default'' w' = Inr (VStr playlist_template)
    \<and> (cookies \<noteq> '''' \<longrightarrow> getitem (VRef ?n) ''cookiefile'' w' = Inr (VStr cookies))
    \<and> (cookies = '''' \<longrightarrow> getitem (VRef ?n) ''cookiefile'' w' = Inl (OtherException ''KeyError''))
    \<and> engine_calls w' = engine_calls w1 @ [Download (VRef ?n) [url]]
    \<and> r = download ydl (objs w') (VRef ?n) [url]"
  proof (cases "cookies = ''''")
    case True
    let ?w4 = "?w3\<lparr>engine_calls := engine_calls ?w3 @ [Download (VRef ?n) [url]]\<rparr>"
    from run dc g1 s1 True
    have w': "w' = ?w4" and r: "r = download ydl (objs ?w4) (VRef ?n) [url]"
      by (auto simp: download_playlist_def Let_def split: sum.splits)
    show ?thesis
      unfolding w' r using True o m1 m(2) calls
      by (simp add: getitem_def)
  next
    case False
    let ?w3' = "?w3\<lparr>objs := (objs ?w3)(?n \<mapsto> Dict (AList.update ''cookiefile'' (VStr cookies) kvs))\<rparr>"
    let ?w4 = "?w3'\<lparr>engine_calls := engine_calls ?w3' @ [Download (VRef ?n) [url]]\<rparr>"
    have s2: "setitem (VRef ?n) ''cookiefile'' (VStr cookies) ?w3 = Inr ?w3'"
      using o by (simp add: setitem_def)
    from run dc g1 s1 s2 False
    have w': "w' = ?w4" and r: "r = download ydl (objs ?w4) (VRef ?n) [url]"
      by (auto simp: download_playlist_def Let_def split: sum.splits)
    show ?thesis
      unfolding w' r using False m1 m(2) calls
      by (simp add: getitem_def update_conv')
  qed
  with run fr bc pt show ?thesis by blast
qed

lemma download_single_video_base:
  assumes l: "l < next_addr w" and lo: "objs w l = Some (Instance c [])"
    and g: "get_base_ydl_params (VRef l) w = (base, w1)"
  shows "\<exists>r w' local_params outtmpl s3.
      download_single_video ydl url base cookies w1 = Some (r, w')
    \<and> local_params = VRef (next_addr w1)
    \<and> frame (next_addr w1) w1 w'
    \<and> (cookies \<noteq> '''' \<longrightarrow> getitem local_params ''cookiefile'' w' = Inr (VStr cookies))
    \<and> (cookies = '''' \<longrightarrow> getitem local_params ''cookiefile'' w' = Inl (OtherException ''KeyError''))
    \<and> getitem local_params ''outtmpl'' w' = Inr outtmpl
    \<and> (case extract_info ydl s3 local_params url of
          Inl e \<Rightarrow>
            r = Inl e \<and> engine_calls w' = engine_calls w1 @ [ExtractInfo local_params url]
        | Inr i \<Rightarrow>
            getitem outtmpl ''default'' w' =
              Inr (VStr (author_of (case i of None \<Rightarrow> Map.empty | Some i' \<Rightarrow> i')
                         @ '' - %(title)s.%(ext)s''))
            \<and> engine_calls w' =
                engine_calls w1 @ [ExtractInfo local_params url, Download local_params [url]]
            \<and> r = download ydl (objs w') local_params [url])"
proof -
  let ?n = "next_addr w1"
  from base_copy [OF l lo g] obtain w2 kvs
    where dc: "deepcopy_params base w1 = Some (VRef ?n, w2)"
      and o: "objs w2 ?n = Some (Dict kvs)"
      and m: "map_of kvs ''outtmpl'' = Some (VRef (?n + 2))" "map_of kvs ''cookiefile'' = None"
      and oo: "objs w2 (?n + 2) = Some (Dict [(''default'', VStr ''''), (''pl_thumbnail'', VStr '''')])"
    by auto
  let ?o = "Suc (Suc ?n)"
  from m(1) have m1: "map_of kvs ''outtmpl'' = Some (VRef ?o)" by simp
  from oo have oo': "objs w2 ?o = Some (Dict [(''default'', VStr []), (''pl_thumbnail'', VStr [])])"
    by simp
  from deepcopy_params_props [OF dc] have "same_rest w1 w2" by simp
  then have calls: "engine_calls w2 = engine_calls w1" by (simp add: same_rest_def)
  have "download_single_video ydl url base cookies w1 \<noteq> None"
    using dc by (simp add: download_single_video_def)
  then obtain r w' where run: "download_single_video ydl url base cookies w1 = Some (r, w')"
    by (cases "download_single_video ydl url base cookies w1") auto
  have fr: "frame ?n w1 w'" by (rule download_single_video_frame [OF run])
  let ?kvs' = "if cookies \<noteq> [] then AList.update ''cookiefile'' (VStr cookies) kvs else kvs"
  let ?w2' = "w2\<lparr>objs := (objs w2)(?n \<mapsto> Dict ?kvs')\<rparr>"
  have c: "(if cookies \<noteq> [] then setitem (VRef ?n) ''cookiefile'' (VStr cookies) w2 else Inr w2)
           = Inr ?w2'"
    using o by (auto simp: setitem_def fun_upd_idem)
  have mk: "map_of ?kvs' ''outtmpl'' = Some (VRef ?o)"
    using m1 by (simp add: update_conv')
  let ?w3 = "?w2'\<lparr>engine_calls := engine_calls ?w2' @ [ExtractInfo (VRef ?n) url]\<rparr>"
  have g3: "getitem (VRef ?n) ''outtmpl'' ?w3 = Inr (VRef ?o)"
    using mk by (simp add: getitem_def)
  have ck: "(cookies \<noteq> [] \<longrightarrow> map_of ?kvs' ''cookiefile'' = Some (VStr cookies))
          \<and> (cookies = [] \<longrightarrow> map_of ?kvs' ''cookiefile'' = None)"
    using m(2) by (simp add: update_conv')
  show ?thesis
  proof (cases "extract_info ydl (objs ?w3) (VRef ?n) url")
    case (Inl e)
    from run dc c Inl have w': "w' = ?w3" and r: "r = Inl e"
      by (simp_all add: download_single_video_def Let_def)
    have "getitem (VRef ?n) ''outtmpl'' w' = Inr (VRef ?o)" unfolding w' by (rule g3)
    moreover have "cookies \<noteq> [] \<longrightarrow> getitem (VRef ?n) ''cookiefile'' w' = Inr (VStr cookies)"
      unfolding w' using ck by (simp add: getitem_def)
    moreover have "cookies = [] \<longrightarrow> getitem (VRef ?n) ''cookiefile'' w' = Inl (OtherException ''KeyError'')"
      unfolding w' using ck by (simp add: getitem_def)
    moreover have "engine_calls w' = engine_calls w1 @ [ExtractInfo (VRef ?n) url]"
      unfolding w' using calls by simp
    ultimately show ?thesis using run fr Inl r
      by (intro exI [of _ r] exI [of _ w'] exI [of _ "VRef ?n"] exI [of _ "VRef ?o"]
               exI [of _ "objs ?w3"]) simp
  next
    case (Inr i)
    let ?t = "VStr (author_of (case i of None \<Rightarrow> Map.empty | Some i' \<Rightarrow> i') @ '' - %(title)s.%(ext)s'')"
    let ?w4 = "?w3\<lparr>objs := (objs ?w3)(?o \<mapsto> Dict [(''default'', ?t), (''pl_thumbnail'', VStr [])])\<rparr>"
    let ?w5 = "?w4\<lparr>engine_calls := engine_calls ?w4 @ [Download (VRef ?n) [url]]\<rparr>"
    have s4: "setitem (VRef ?o) ''default'' ?t ?w3 = Inr ?w4"
      using oo' by (simp add: setitem_def)
    from run dc c Inr g3 s4
    have w': "w' = ?w5" and r: "r = download ydl (objs ?w5) (VRef ?n) [url]"
      by (auto simp: download_single_video_def Let_def split: sum.splits)
    have "getitem (VRef ?n) ''outtmpl'' w' = Inr (VRef ?o)"
      unfolding w' using mk by (simp add: getitem_def)
    moreover have "cookies \<noteq> [] \<longrightarrow> getitem (VRef ?n) ''cookiefile'' w' = Inr (VStr cookies)"
      unfolding w' using ck by (simp add: getitem_def)
    moreover have "cookies = [] \<longrightarrow> getitem (VRef ?n) ''cookiefile'' w' = Inl (OtherException ''KeyError'')"
      unfolding w' using ck by (simp add: getitem_def)
    moreover have "getitem (VRef ?o) ''default'' w' = Inr ?t"
      unfolding w' by (simp add: getitem_def)
    moreover have "engine_calls w' = engine_calls w1 @ [ExtractInfo (VRef ?n) url, Download (VRef ?n) [url]]"
      unfolding w' using calls by simp
    moreover have "r = download ydl (objs w') (VRef ?n) [url]"
      unfolding w' r by simp
    ultimately show ?thesis using run fr Inr
      by (intro exI [of _ r] exI [of _ w'] exI [of _ "VRef ?n"] exI [of _ "VRef ?o"]
               exI [of _ "objs ?w3"]) simp
  qed
qed


section \<open>The command\<close>


lemma get_base_log_call:
  "get_base_ydl_params lg (log_call lv ev kw w) =
     (fst (get_base_ydl_params lg w), log_call lv ev kw (snd (get_base_ydl_params lg w)))"
  by (simp add: get_base_ydl_params_def alloc_def log_call_def)

lemma get_base_fst_log_call:
  "fst (get_base_ydl_params lg (log_call lv ev kw w)) = fst (get_base_ydl_params lg w)"
  by (simp add: get_base_log_call)

lemma log_call_fields [simp]:
  "objs (log_call lv ev kw w) = objs w"
  "next_addr (log_call lv ev kw w) = next_addr w"
  "logger (log_call lv ev kw w) = logger w"
  "engine_calls (log_call lv ev kw w) = engine_calls w"
  by (simp_all add: log_call_def)

text \<open>What \<open>main\<close> returns or raises, in a state whose logger is a plain object.\<close>

lemma main_outcome:
  assumes lg: "logger w = VRef l" and l: "l < next_addr w" and lo: "objs w l = Some (Instance c [])"
  shows "\<exists>out w'. main ydl url cookies w = Some (out, w')
    \<and> (\<forall>e. is_youtube_url url = Inl e \<longrightarrow> out = Inl e)
    \<and> (is_youtube_url url = Inr False \<longrightarrow>
         out = Inl (ValueError (''Not a valid YouTube URL: '' @ [CHR 0x22] @ url @ [CHR 0x22])))
    \<and> (is_youtube_url url = Inr True \<longrightarrow>
         (\<forall>e. is_single_video url = Inl e \<longrightarrow> out = Inl e)
         \<and> (is_single_video url = Inr False \<longrightarrow>
              (\<exists>s p. out = download ydl s p [url]
                 \<and> engine_calls w' = engine_calls w @ [Download p [url]]))
         \<and> (is_single_video url = Inr True \<longrightarrow>
              (\<exists>s3 s5 p. case extract_info ydl s3 p url of
                   Inl e \<Rightarrow> out = Inl e \<and> engine_calls w' = engine_calls w @ [ExtractInfo p url]
                 | Inr i \<Rightarrow> out = download ydl s5 p [url]
                     \<and> engine_calls w' = engine_calls w @ [ExtractInfo p url, Download p [url]])))"
proof (cases "is_youtube_url url")
  case (Inl e)
  then show ?thesis by (simp add: main_def)
next
  case (Inr b)
  show ?thesis
  proof (cases b)
    case False
    with Inr show ?thesis by (simp add: main_def)
  next
    case True
    obtain base w1 where g: "get_base_ydl_params (VRef l) w = (base, w1)"
      by (cases "get_base_ydl_params (VRef l) w")
    from base_params_props [OF g] have sr: "same_rest w w1" by simp
    then have calls1: "engine_calls w1 = engine_calls w" by (simp add: same_rest_def)
    show ?thesis
    proof (cases "is_single_video url")
      case (Inl e)
      with Inr True g lg show ?thesis by (simp add: main_def)
    next
      case s: (Inr single)
      show ?thesis
      proof (cases single)
        case False
        let ?w = "log_call Info ''downloading_playlist'' [(''url'', url)] w"
        have g': "get_base_ydl_params (VRef l) ?w
                    = (base, log_call Info ''downloading_playlist'' [(''url'', url)] w1)"
          using g by (simp add: get_base_log_call)
        let ?w1 = "log_call Info ''downloading_playlist'' [(''url'', url)] w1"
        have l': "l < next_addr ?w" and lo': "objs ?w l = Some (Instance c [])"
          using l lo by simp_all
        from download_playlist_base [OF l' lo' g', of ydl url cookies]
        obtain r w' p where run: "download_playlist ydl url base cookies ?w1 = Some (r, w')"
          and c0: "engine_calls w' = engine_calls ?w1 @ [Download p [url]]"
          and r: "r = download ydl (objs w') p [url]"
          by blast
        from c0 have c: "engine_calls w' = engine_calls w1 @ [Download p [url]]" by simp
        from Inr True s False g lg run have "main ydl url cookies w = Some (r, w')"
          by (simp add: main_def)
        with Inr True s False c r calls1 show ?thesis by auto
      next
        case True': True
        let ?w = "log_call Info ''downloading_single_video'' [(''url'', url)] w"
        have g': "get_base_ydl_params (VRef l) ?w
                    = (base, log_call Info ''downloading_single_video'' [(''url'', url)] w1)"
          using g by (simp add: get_base_log_call)
        let ?w1 = "log_call Info ''downloading_single_video'' [(''url'', url)] w1"
        have l': "l < next_addr ?w" and lo': "objs ?w l = Some (Instance c [])"
          using l lo by simp_all
        from download_single_video_base [OF l' lo' g', of ydl url cookies]
        obtain r w' p ot s3 where run: "download_single_video ydl url base cookies ?w1 = Some (r, w')"
          and c0: "case extract_info ydl s3 p url of
                    Inl e \<Rightarrow> r = Inl e \<and> engine_calls w' = engine_calls ?w1 @ [ExtractInfo p url]
                  | Inr i \<Rightarrow>
                      getitem ot ''default'' w' =
                        Inr (VStr (author_of (case i of None \<Rightarrow> Map.empty | Some i' \<Rightarrow> i')
                                   @ '' - %(title)s.%(ext)s''))
                      \<and> engine_calls w' = engine_calls ?w1 @ [ExtractInfo p url, Download p [url]]
                      \<and> r = download ydl (objs w') p [url]"
          by blast
        from c0 have c: "case extract_info ydl s3 p url of
                    Inl e \<Rightarrow> r = Inl e \<and> engine_calls w' = engine_calls w1 @ [ExtractInfo p url]
                  | Inr i \<Rightarrow> engine_calls w' = engine_calls w1 @ [ExtractInfo p url, Download p [url]]
                      \<and> r = download ydl (objs w') p [url]"
          by (cases "extract_info ydl s3 p url") simp_all
        from Inr True s True' g lg run have m: "main ydl url cookies w = Some (r, w')"
          by (simp add: main_def)
        have "case extract_info ydl s3 p url of
                   Inl e \<Rightarrow> r = Inl e \<and> engine_calls w' = engine_calls w @ [ExtractInfo p url]
                 | Inr i \<Rightarrow> r = download ydl (objs w') p [url]
                     \<and> engine_calls w' = engine_calls w @ [ExtractInfo p url, Download p [url]]"
          using c calls1 by (auto split: sum.splits)
        then have "\<exists>s3 s5 p. case extract_info ydl s3 p url of
                   Inl e \<Rightarrow> r = Inl e \<and> engine_calls w' = engine_calls w @ [ExtractInfo p url]
                 | Inr i \<Rightarrow> r = download ydl s5 p [url]
                     \<and> engine_calls w' = engine_calls w @ [ExtractInfo p url, Download p [url]]"
          by blast
        with Inr True s True' m show ?thesis by simp
      qed
    qed
  qed
qed


section \<open>The script\<close>

lemma started_logger:
  "logger started = VRef 0" "0 < next_addr started"
  "objs started 0 = Some (Instance ''BoundLoggerLazyProxy'' [])"
  by (simp_all add: started_def initial_world_def)

lemma script_app:
  "app ydl argv started = Some (out, w) \<Longrightarrow>
   script ydl argv = Some (case out of Inl e \<Rightarrow> handle e w | Inr _ \<Rightarrow> (0, w))"
  by (cases out) (simp_all add: script_def started_def)

lemma handle_code:
  "fst (handle e w) =
     (case e of ClickException exit_code _ \<Rightarrow> exit_code | ValueError _ \<Rightarrow> 3
      | DownloadError _ \<Rightarrow> 2 | OtherException _ \<Rightarrow> 1)"
  by (cases e) simp_all

lemma script_outcome:
  "\<exists>out w. app ydl argv started = Some (out, w)
    \<and> script ydl argv = Some (case out of Inl e \<Rightarrow> handle e w | Inr _ \<Rightarrow> (0, w))
    \<and> (\<forall>e w. fst (handle e w) =
          (case e of ClickException exit_code _ \<Rightarrow> exit_code | ValueError _ \<Rightarrow> 3
           | DownloadError _ \<Rightarrow> 2 | OtherException _ \<Rightarrow> 1))
    \<and> (\<forall>e. argv = Inl e \<longrightarrow> out = Inl e)
    \<and> (\<forall>url cookies. argv = Inr (url, cookies) \<longrightarrow>
          (\<forall>e. is_youtube_url url = Inl e \<longrightarrow> out = Inl e)
        \<and> (is_youtube_url url = Inr False \<longrightarrow>
             out = Inl (ValueError (''Not a valid YouTube URL: '' @ [CHR 0x22] @ url @ [CHR 0x22])))
        \<and> (is_youtube_url url = Inr True \<longrightarrow>
             (\<forall>e. is_single_video url = Inl e \<longrightarrow> out = Inl e)
             \<and> (is_single_video url = Inr False \<longrightarrow> (\<exists>s p. out = download ydl s p [url]))
             \<and> (is_single_video url = Inr True \<longrightarrow>
                  (\<exists>s3 s5 p. case extract_info ydl s3 p url of
                       Inl e \<Rightarrow> out = Inl e
                     | Inr i \<Rightarrow> out = download ydl s5 p [url]))))"
proof (cases argv)
  case (Inl e)
  then have a: "app ydl argv started = Some (Inl e, started)" by (simp add: app_def)
  show ?thesis
    using a script_app [OF a] Inl handle_code
    by (intro exI [of _ "Inl e"] exI [of _ started]) simp
next
  case (Inr uc)
  obtain url cookies where uc: "uc = (url, cookies)" by (cases uc)
  from main_outcome [OF started_logger, of ydl url cookies]
  obtain out w where m: "main ydl url cookies started = Some (out, w)"
    and y0: "\<forall>e. is_youtube_url url = Inl e \<longrightarrow> out = Inl e"
    and y1: "is_youtube_url url = Inr False \<longrightarrow>
         out = Inl (ValueError (''Not a valid YouTube URL: '' @ [CHR 0x22] @ url @ [CHR 0x22]))"
    and y2: "is_youtube_url url = Inr True \<longrightarrow>
         (\<forall>e. is_single_video url = Inl e \<longrightarrow> out = Inl e)
         \<and> (is_single_video url = Inr False \<longrightarrow>
              (\<exists>s p. out = download ydl s p [url]
                 \<and> engine_calls w = engine_calls started @ [Download p [url]]))
         \<and> (is_single_video url = Inr True \<longrightarrow>
              (\<exists>s3 s5 p. case extract_info ydl s3 p url of
                   Inl e \<Rightarrow> out = Inl e \<and> engine_calls w = engine_calls started @ [ExtractInfo p url]
                 | Inr i \<Rightarrow> out = download ydl s5 p [url]
                     \<and> engine_calls w = engine_calls started @ [ExtractInfo p url, Download p [url]]))"
    by blast
  from m Inr uc have a: "app ydl argv started = Some (out, w)" by (simp add: app_def)
  have y2': "is_youtube_url url = Inr True \<longrightarrow>
             (\<forall>e. is_single_video url = Inl e \<longrightarrow> out = Inl e)
             \<and> (is_single_video url = Inr False \<longrightarrow> (\<exists>s p. out = download ydl s p [url]))
             \<and> (is_single_video url = Inr True \<longrightarrow>
                  (\<exists>s3 s5 p. case extract_info ydl s3 p url of
                       Inl e \<Rightarrow> out = Inl e
                     | Inr i \<Rightarrow> out = download ydl s5 p [url]))"
  proof (intro impI conjI)
    assume t: "is_youtube_url url = Inr True"
    from y2 t show "\<forall>e. is_single_video url = Inl e \<longrightarrow> out = Inl e" by blast
    { assume "is_single_video url = Inr False"
      with y2 t show "\<exists>s p. out = download ydl s p [url]" by blast }
    { assume "is_single_video url = Inr True"
      with y2 t obtain s3 s5 p where
        "case extract_info ydl s3 p url of
                   Inl e \<Rightarrow> out = Inl e \<and> engine_calls w = engine_calls started @ [ExtractInfo p url]
                 | Inr i \<Rightarrow> out = download ydl s5 p [url]
                     \<and> engine_calls w = engine_calls started @ [ExtractInfo p url, Download p [url]]"
        by blast
      then have "case extract_info ydl s3 p url of
                       Inl e \<Rightarrow> out = Inl e
                     | Inr i \<Rightarrow> out = download ydl s5 p [url]"
        by (cases "extract_info ydl s3 p url") simp_all
      then show "\<exists>s3 s5 p. case extract_info ydl s3 p url of
                       Inl e \<Rightarrow> out = Inl e
                     | Inr i \<Rightarrow> out = download ydl s5 p [url]" by blast }
  qed
  show ?thesis
    using a script_app [OF a] Inr uc handle_code y0 y1 y2'
    by (intro exI [of _ out] exI [of _ w]) simp
qed

lemma script_code:
  assumes "app ydl argv started = Some (out, w)"
  shows "\<exists>w'. script ydl argv =
      Some (case out of Inl e \<Rightarrow>
                (case e of ClickException exit_code _ \<Rightarrow> exit_code | ValueError _ \<Rightarrow> 3
                 | DownloadError _ \<Rightarrow> 2 | OtherException _ \<Rightarrow> 1)
             | Inr _ \<Rightarrow> 0, w')"
proof (cases out)
  case (Inl e)
  with script_app [OF assms] show ?thesis by (cases e) simp_all
next
  case (Inr u)
  with script_app [OF assms] show ?thesis by simp
qed

section \<open>The initial state\<close>

lemma initial_world_logger:
  "0 < next_addr initial_world"
  "objs initial_world 0 = Some (Instance ''BoundLoggerLazyProxy'' [])"
  by (simp_all add: initial_world_def)

lemma initial_base_calls:
  "engine_calls (snd (get_base_ydl_params lg initial_world)) = []"
proof -
  have "get_base_ydl_params lg initial_world
          = (fst (get_base_ydl_params lg initial_world), snd (get_base_ydl_params lg initial_world))"
    by simp
  from base_params_props [OF this]
  have "same_rest initial_world (snd (get_base_ydl_params lg initial_world))" by simp
  then show ?thesis by (simp add: same_rest_def initial_world_def)
qed

lemma first_config_entries:
  "getitem (fst first_config) ''format'' (snd first_config) = Inr (VStr format_selector)"
  "getitem (fst first_config) ''retries'' (snd first_config) = Inr (VInt 15)"
  "getitem (fst first_config) ''outtmpl'' (snd first_config) = Inr (VRef 2)"
  "getitem (VRef 2) ''pl_thumbnail'' (snd first_config) = Inr (VStr '''')"
  "engine_calls (snd first_config) = []"
  by (simp_all add: first_config_def get_base_ydl_params_def alloc_def initial_world_def
        getitem_def)

section \<open>Exit codes\<close>




section \<open>Subdomains of the short-link host\<close>

lemma subdomain_not_short_link_host:
  assumes "sub \<noteq> ''www''"
  shows "sub @ ''.youtu.be'' \<noteq> ''youtu.be''" "sub @ ''.youtu.be'' \<noteq> ''www.youtu.be''"
proof -
  have "length (sub @ ''.youtu.be'') \<noteq> length ''youtu.be''" by simp
  then show "sub @ ''.youtu.be'' \<noteq> ''youtu.be''" by metis
  have "''www.youtu.be'' = ''www'' @ ''.youtu.be''" by simp
  then show "sub @ ''.youtu.be'' \<noteq> ''www.youtu.be''"
    using assms by (simp only: append_same_eq) simp
qed

lemma subdomain_rejected:
  assumes p: "urlparse (ensure_scheme u) = Inr p"
    and h: "host_of p = sub @ ''.youtu.be''" and sub: "sub \<noteq> ''www''"
    and path: "\<not> list_ex (startswith (path p)) [''/watch'', ''/shorts/'', ''/live/'', ''/playlist'']"
  shows "is_youtube_url u = Inr True"
    and "is_single_video u =
          Inl (ValueError (''Unsupported or invalid YouTube URL structure: '' @ [CHR 0x22]
                 @ ensure_scheme u @ [CHR 0x22]))"
proof -
  have "''youtu.be'' \<in> set valid_domains" by (simp add: valid_domains_def)
  moreover from h have "host_of p = sub @ ''.'' @ ''youtu.be''" by simp
  ultimately have "\<exists>d. d \<in> set valid_domains \<and> (host_of p = d \<or> (\<exists>r. host_of p = r @ ''.'' @ d))"
    by (intro exI [of _ "''youtu.be''"] conjI disjI2 exI [of _ sub])
  then show "is_youtube_url u = Inr True"
    by (simp only: is_youtube_url_parsed [OF p])
  from subdomain_not_short_link_host [OF sub] h
  have nh: "\<not> (host_of p = ''youtu.be'' \<or> host_of p = ''www.youtu.be'')" by simp
  from path have np: "\<not> ((\<exists>r. path p = ''/watch'' @ r) \<or> (\<exists>r. path p = ''/shorts/'' @ r)
              \<or> (\<exists>r. path p = ''/live/'' @ r))" "\<not> (\<exists>r. path p = ''/playlist'' @ r)"
    by (simp_all add: startswith_iff)
  show "is_single_video u =
          Inl (ValueError (''Unsupported or invalid YouTube URL structure: '' @ [CHR 0x22]
                 @ ensure_scheme u @ [CHR 0x22]))"
    using nh np by (simp only: is_single_video_parsed [OF p] if_False)
qed

lemma script_ValueError:
  assumes y: "is_youtube_url u = Inr True" and s: "is_single_video u = Inl (ValueError m)"
  shows "\<exists>w. script ydl (Inr (u, cookies)) = Some (3, w)"
proof -
  from script_outcome [of ydl "Inr (u, cookies)"] obtain out w
    where a: "app ydl (Inr (u, cookies)) started = Some (out, w)"
      and c: "\<forall>url cookies'. Inr (u, cookies) = (Inr (url, cookies') :: exn + string \<times> string) \<longrightarrow>
          (\<forall>e. is_youtube_url url = Inl e \<longrightarrow> out = Inl e)
        \<and> (is_youtube_url url = Inr False \<longrightarrow>
             out = Inl (ValueError (''Not a valid YouTube URL: '' @ [CHR 0x22] @ url @ [CHR 0x22])))
        \<and> (is_youtube_url url = Inr True \<longrightarrow>
             (\<forall>e. is_single_video url = Inl e \<longrightarrow> out = Inl e)
             \<and> (is_single_video url = Inr False \<longrightarrow> (\<exists>s p. out = download ydl s p [url]))
             \<and> (is_single_video url = Inr True \<longrightarrow>
                  (\<exists>s3 s5 p. case extract_info ydl s3 p url of
                       Inl e \<Rightarrow> out = Inl e
                     | Inr i \<Rightarrow> out = download ydl s5 p [url])))"
    by (elim exE conjE) (rule that)
  note b = mp [OF spec [OF spec [OF c]] refl]
  note t = mp [OF conjunct2 [OF conjunct2 [OF b]] y]
  note o = mp [OF spec [OF conjunct1 [OF t]] s]
  from script_code [OF a] o show ?thesis by simp
qed

text \<open>
  Claim C9. Let the normalised URL parse with a host that is a label other than \<open>www\<close>
  followed by \<open>.youtu.be\<close>, and a path that begins with none of \<open>/watch\<close>, \<open>/shorts/\<close>,
  \<open>/live/\<close>, \<open>/playlist\<close>. Then \<open>is_youtube_url\<close> returns \<open>True\<close>, \<open>is_single_video\<close>
  raises the \<open>ValueError\<close> for an unsupported structure, and the script exits with
  code 3.
\<close>

theorem short_link_subdomain_rejected:
  assumes "urlparse (ensure_scheme u) = Inr p"
    and "host_of p = sub @ ''.youtu.be''" and "sub \<noteq> ''www''"
    and "\<not> list_ex (startswith (path p)) [''/watch'', ''/shorts/'', ''/live/'', ''/playlist'']"
  shows "is_youtube_url u = Inr True
    \<and> is_single_video u =
          Inl (ValueError (''Unsupported or invalid YouTube URL structure: '' @ [CHR 0x22]
                 @ ensure_scheme u @ [CHR 0x22]))
    \<and> (\<exists>w. script ydl (Inr (u, cookies)) = Some (3, w))"
  using subdomain_rejected [OF assms] script_ValueError [OF subdomain_rejected [OF assms]]
  by (intro conjI)

theorem short_link_subdomain_rejected_witness:
  "is_youtube_url ''https://m.youtu.be/abc123'' = Inr True
   \<and> is_single_video ''https://m.youtu.be/abc123'' =
       Inl (ValueError (''Unsupported or invalid YouTube URL structure: '' @ [CHR 0x22]
              @ ''https://m.youtu.be/abc123'' @ [CHR 0x22]))
   \<and> (\<exists>w. script ydl_fine (Inr (''https://m.youtu.be/abc123'', '''')) = Some (3, w))"
proof -
  let ?u = "''https://m.youtu.be/abc123''"
  let ?p = "\<lparr>scheme = ''https'', netloc = ''m.youtu.be'', path = ''/abc123'',
             params = '''', query = '''', fragment = ''''\<rparr>"
  have p: "urlparse (ensure_scheme ?u) = Inr ?p" by code_simp
  have h: "host_of ?p = ''m'' @ ''.youtu.be''" by code_simp
  have s: "''m'' \<noteq> ''www''" by simp
  have n: "\<not> list_ex (startswith (path ?p)) [''/watch'', ''/shorts/'', ''/live/'', ''/playlist'']"
    by code_simp
  have e: "ensure_scheme ?u = ?u" by code_simp
  from short_link_subdomain_rejected [OF p h s n, of ydl_fine "''''"] e
  show ?thesis by simp
qed

section \<open>Downloading a playlist\<close>

text \<open>
  Claim C7. Called with the base configuration, \<open>download_playlist\<close> returns. Its
  \<open>local_params\<close> is what \<open>deepcopy_params\<close> makes of the base, and that is a deep copy:
  new objects with the keys and values of the base throughout. The final state differs
  from the state after copying in two entries only: the \<open>default\<close> entry of the copy's
  \<open>outtmpl\<close> is the playlist template, and the copy has the \<open>cookiefile\<close> entry exactly
  when \<open>cookies\<close> is not empty. Every object that existed before, the base among them,
  is unchanged. The only thing asked of the engine is \<open>download\<close> with the one URL, in a
  session on the copy; no \<open>extract_info\<close> is asked, and the outcome of the function is
  the outcome of that session.
\<close>

theorem download_playlist_copies_and_downloads:
  assumes "l < next_addr w" and "objs w l = Some (Instance c [])"
    and "get_base_ydl_params (VRef l) w = (base, w1)"
  shows "\<exists>r w' w2 local_params outtmpl.
      download_playlist ydl url base cookies w1 = Some (r, w')
    \<and> local_params = VRef (next_addr w1)
    \<and> deepcopy_params base w1 = Some (local_params, w2)
    \<and> deep_copy_of 4 (next_addr w1) (objs w1) base (objs w2) local_params
    \<and> frame (next_addr w1) w1 w'
    \<and> getitem local_params ''outtmpl'' w' = Inr outtmpl
    \<and> getitem outtmpl ''default'' w' = Inr (VStr playlist_template)
    \<and> playlist_template = ''%(channel)s - %(playlist_title)s/%(playlist_index)03d - %(title)s.%(ext)s''
    \<and> (cookies \<noteq> '''' \<longrightarrow> getitem local_params ''cookiefile'' w' = Inr (VStr cookies))
    \<and> (cookies = '''' \<longrightarrow> getitem local_params ''cookiefile'' w' = Inl (OtherException ''KeyError''))
    \<and> getitem base ''cookiefile'' w' = Inl (OtherException ''KeyError'')
    \<and> (\<forall>key. key \<noteq> ''cookiefile'' \<longrightarrow> getitem local_params key w' = getitem local_params key w2)
    \<and> (\<forall>key. key \<noteq> ''default'' \<longrightarrow> getitem outtmpl key w' = getitem outtmpl key w2)
    \<and> (\<forall>a. VRef a \<noteq> local_params \<and> VRef a \<noteq> outtmpl \<longrightarrow> objs w' a = objs w2 a)
    \<and> engine_calls w' = engine_calls w1 @ [Download local_params [url]]
    \<and> r = download ydl (objs w') local_params [url]"
proof -
  note l = assms(1) and lo = assms(2) and g = assms(3)
  let ?n = "next_addr w1"
  from base_copy [OF l lo g] obtain w2 kvs
    where dc: "deepcopy_params base w1 = Some (VRef ?n, w2)"
      and o: "objs w2 ?n = Some (Dict kvs)"
      and m: "map_of kvs ''outtmpl'' = Some (VRef (?n + 2))" "map_of kvs ''cookiefile'' = None"
      and oo: "objs w2 (?n + 2) = Some (Dict [(''default'', VStr ''''), (''pl_thumbnail'', VStr '''')])"
    by auto
  have deep: "deep_copy_of 4 ?n (objs w1) base (objs w2) (VRef ?n)"
    by (rule base_copy_deep [OF l lo g dc])
  let ?o = "Suc (Suc ?n)"
  from m(1) have m1: "map_of kvs ''outtmpl'' = Some (VRef ?o)" by simp
  from oo have oo': "objs w2 ?o = Some (Dict [(''default'', VStr []), (''pl_thumbnail'', VStr [])])"
    by simp
  from deepcopy_params_props [OF dc] have sr: "same_rest w1 w2" by simp
  then have calls: "engine_calls w2 = engine_calls w1" by (simp add: same_rest_def)
  have "download_playlist ydl url base cookies w1 \<noteq> None"
    using dc by (simp add: download_playlist_def)
  then obtain r w' where run: "download_playlist ydl url base cookies w1 = Some (r, w')"
    by (cases "download_playlist ydl url base cookies w1") auto
  have fr: "frame ?n w1 w'" by (rule download_playlist_frame [OF run])
  from base_params_props [OF g] obtain kvs0
    where b: "base = VRef (next_addr w + 11)" "?n = next_addr w + 12"
      and bo: "objs w1 (next_addr w + 11) = Some (Dict kvs0)" "map_of kvs0 ''cookiefile'' = None"
    by auto
  from fr b bo(1) have "objs w' (next_addr w + 11) = Some (Dict kvs0)" by (simp add: frame_def)
  with b bo(2) have bc: "getitem base ''cookiefile'' w' = Inl (OtherException ''KeyError'')"
    by (simp add: getitem_def)
  have pt: "playlist_template = ''%(channel)s - %(playlist_title)s/%(playlist_index)03d - %(title)s.%(ext)s''"
    by (simp add: playlist_template_def)
  let ?T = "VStr playlist_template"
  let ?w3 = "w2\<lparr>objs := (objs w2)(?o \<mapsto> Dict [(''default'', ?T), (''pl_thumbnail'', VStr '''')])\<rparr>"
  have g1: "getitem (VRef ?n) ''outtmpl'' w2 = Inr (VRef (?o))"
    using o m1 by (simp add: getitem_def)
  have s1: "setitem (VRef (?o)) ''default'' ?T w2 = Inr ?w3"
    using oo' by (simp add: setitem_def)
  have main: "getitem (VRef ?n) ''outtmpl'' w' = Inr (VRef (?o))
    \<and> getitem (VRef (?o)) ''default'' w' = Inr (VStr playlist_template)
    \<and> (cookies \<noteq> '''' \<longrightarrow> getitem (VRef ?n) ''cookiefile'' w' = Inr (VStr cookies))
    \<and> (cookies = '''' \<longrightarrow> getitem (VRef ?n) ''cookiefile'' w' = Inl (OtherException ''KeyError''))
    \<and> (\<forall>key. key \<noteq> ''cookiefile'' \<longrightarrow> getitem (VRef ?n) key w' = getitem (VRef ?n) key w2)
    \<and> (\<forall>key. key \<noteq> ''default'' \<longrightarrow> getitem (VRef ?o) key w' = getitem (VRef ?o) key w2)
    \<and> (\<forall>a. VRef a \<noteq> VRef ?n \<and> VRef a \<noteq> VRef ?o \<longrightarrow> objs w' a = objs w2 a)
    \<and> engine_calls w' = engine_calls w1 @ [Download (VRef ?n) [url]]
    \<and> r = download ydl (objs w') (VRef ?n) [url]"
  proof (cases "cookies = ''''")
    case True
    let ?w4 = "?w3\<lparr>engine_calls := engine_calls ?w3 @ [Download (VRef ?n) [url]]\<rparr>"
    from run dc g1 s1 True
    have w': "w' = ?w4" and r: "r = download ydl (objs ?w4) (VRef ?n) [url]"
      by (auto simp: download_playlist_def Let_def split: sum.splits)
    show ?thesis
      unfolding w' r using True o oo' m1 m(2) calls
      by (simp add: getitem_def)
  next
    case False
    let ?w3' = "?w3\<lparr>objs := (objs ?w3)(?n \<mapsto> Dict (AList.update ''cookiefile'' (VStr cookies) kvs))\<rparr>"
    let ?w4 = "?w3'\<lparr>engine_calls := engine_calls ?w3' @ [Download (VRef ?n) [url]]\<rparr>"
    have s2: "setitem (VRef ?n) ''cookiefile'' (VStr cookies) ?w3 = Inr ?w3'"
      using o by (simp add: setitem_def)
    from run dc g1 s1 s2 False
    have w': "w' = ?w4" and r: "r = download ydl (objs ?w4) (VRef ?n) [url]"
      by (auto simp: download_playlist_def Let_def split: sum.splits)
    show ?thesis
      unfolding w' r using False o oo' m1 m(2) calls
      by (simp add: getitem_def update_conv')
  qed
  show ?thesis
    apply (rule exI [of _ r], rule exI [of _ w'], rule exI [of _ w2],
           rule exI [of _ "VRef ?n"], rule exI [of _ "VRef ?o"])
    using run dc deep fr bc pt main
    apply -
    by (elim conjE, intro conjI; (assumption | rule refl))
qed

theorem download_playlist_copies_and_downloads_witness:
  "\<exists>r w' w2 local_params outtmpl.
      download_playlist ydl_fine ''https://www.youtube.com/playlist?list=xyz''
        (fst first_config) ''cookies.txt'' (snd first_config) = Some (r, w')
    \<and> deepcopy_params (fst first_config) (snd first_config) = Some (local_params, w2)
    \<and> deep_copy_of 4 (next_addr (snd first_config)) (objs (snd first_config)) (fst first_config)
          (objs w2) local_params
    \<and> getitem local_params ''format'' w' = Inr (VStr format_selector)
    \<and> getitem local_params ''retries'' w' = Inr (VInt 15)
    \<and> getitem local_params ''outtmpl'' w' = Inr outtmpl
    \<and> getitem outtmpl ''default'' w' =
        Inr (VStr ''%(channel)s - %(playlist_title)s/%(playlist_index)03d - %(title)s.%(ext)s'')
    \<and> getitem outtmpl ''pl_thumbnail'' w' = Inr (VStr '''')
    \<and> getitem local_params ''cookiefile'' w' = Inr (VStr ''cookies.txt'')
    \<and> getitem (fst first_config) ''cookiefile'' w' = Inl (OtherException ''KeyError'')
    \<and> engine_calls w' = [Download local_params [''https://www.youtube.com/playlist?list=xyz'']]
    \<and> r = Inr ()"
proof -
  let ?u = "''https://www.youtube.com/playlist?list=xyz''"
  let ?b = "fst first_config" and ?w1 = "snd first_config"
  have g: "get_base_ydl_params (VRef 0) initial_world = (?b, ?w1)"
    by (simp add: first_config_def)
  from download_playlist_copies_and_downloads [OF initial_world_logger g, of ydl_fine ?u "''cookies.txt''"]
  obtain r w' w2 lp ot
    where run: "download_playlist ydl_fine ?u ?b ''cookies.txt'' ?w1 = Some (r, w')"
      and dc: "deepcopy_params ?b ?w1 = Some (lp, w2)"
      and deep: "deep_copy_of 4 (next_addr ?w1) (objs ?w1) ?b (objs w2) lp"
      and o: "getitem lp ''outtmpl'' w' = Inr ot"
      and d: "getitem ot ''default'' w' = Inr (VStr playlist_template)"
      and t: "playlist_template = ''%(channel)s - %(playlist_title)s/%(playlist_index)03d - %(title)s.%(ext)s''"
      and c: "''cookies.txt'' \<noteq> '''' \<longrightarrow> getitem lp ''cookiefile'' w' = Inr (VStr ''cookies.txt'')"
      and bc: "getitem ?b ''cookiefile'' w' = Inl (OtherException ''KeyError'')"
      and k1: "\<forall>key. key \<noteq> ''cookiefile'' \<longrightarrow> getitem lp key w' = getitem lp key w2"
      and k2: "\<forall>key. key \<noteq> ''default'' \<longrightarrow> getitem ot key w' = getitem ot key w2"
      and e: "engine_calls w' = engine_calls ?w1 @ [Download lp [?u]]"
      and r: "r = download ydl_fine (objs w') lp [?u]"
    by (elim exE conjE) (rule that)
  have deep4: "deep_copy_of (Suc 3) (next_addr ?w1) (objs ?w1) ?b (objs w2) lp"
    using deep by simp
  from deep_copy_of_getitem [OF deep first_config_entries(1)]
  have "getitem lp ''format'' w2 = Inr (VStr format_selector)" by simp
  moreover from k1 have "getitem lp ''format'' w' = getitem lp ''format'' w2" by simp
  ultimately have f: "getitem lp ''format'' w' = Inr (VStr format_selector)" by simp
  from deep_copy_of_getitem [OF deep first_config_entries(2)]
  have "getitem lp ''retries'' w2 = Inr (VInt 15)" by simp
  moreover from k1 have "getitem lp ''retries'' w' = getitem lp ''retries'' w2" by simp
  ultimately have rt: "getitem lp ''retries'' w' = Inr (VInt 15)" by simp
  from deep_copy_of_getitem_child [OF deep4 first_config_entries(3)] obtain ot2
    where o2: "getitem lp ''outtmpl'' w2 = Inr ot2"
      and d2: "deep_copy_of 3 (next_addr ?w1) (objs ?w1) (VRef 2) (objs w2) ot2"
    by blast
  from k1 have "getitem lp ''outtmpl'' w' = getitem lp ''outtmpl'' w2" by simp
  with o o2 have "ot2 = ot" by simp
  with d2 have "deep_copy_of 3 (next_addr ?w1) (objs ?w1) (VRef 2) (objs w2) ot" by simp
  from deep_copy_of_getitem [OF this first_config_entries(4)]
  have "getitem ot ''pl_thumbnail'' w2 = Inr (VStr '''')" by simp
  moreover from k2 have "getitem ot ''pl_thumbnail'' w' = getitem ot ''pl_thumbnail'' w2" by simp
  ultimately have pl: "getitem ot ''pl_thumbnail'' w' = Inr (VStr '''')" by simp
  from c have c': "getitem lp ''cookiefile'' w' = Inr (VStr ''cookies.txt'')" by simp
  from d t have d': "getitem ot ''default'' w' =
        Inr (VStr ''%(channel)s - %(playlist_title)s/%(playlist_index)03d - %(title)s.%(ext)s'')"
    by (simp only:)
  from e have e': "engine_calls w' = [Download lp [?u]]"
    by (simp only: first_config_entries(5) append_Nil)
  from r have r': "r = Inr ()" by (simp add: ydl_fine_def)
  show ?thesis
    apply (rule exI [of _ r], rule exI [of _ w'], rule exI [of _ w2],
           rule exI [of _ lp], rule exI [of _ ot])
    using run dc deep f rt o d' pl c' bc e' r'
    by (simp only: simp_thms)
qed

section \<open>An author that is only the at sign\<close>

lemma author_of_at_sign:
  assumes "find (\<lambda>s. s \<noteq> [])
             (List.map_filter (info_get i) [''channel'', ''uploader'', ''creator'', ''uploader_id''])
           = Some ''@''"
  shows "author_of i = ''''"
  unfolding author_of_eq assms by simp

lemma download_single_video_at_sign:
  assumes l: "l < next_addr w" and lo: "objs w l = Some (Instance c [])"
    and g: "get_base_ydl_params (VRef l) w = (base, w1)"
    and ei: "\<forall>s p. extract_info ydl s p url = Inr (Some i)"
    and a: "author_of i = ''''"
  shows "\<exists>r w' local_params outtmpl.
        download_single_video ydl url base cookies w1 = Some (r, w')
      \<and> local_params = VRef (next_addr w1)
      \<and> getitem local_params ''outtmpl'' w' = Inr outtmpl
      \<and> getitem outtmpl ''default'' w' = Inr (VStr '' - %(title)s.%(ext)s'')
      \<and> engine_calls w' =
          engine_calls w1 @ [ExtractInfo local_params url, Download local_params [url]]"
proof -
  from download_single_video_base [OF l lo g, of ydl url cookies]
  obtain r w' lp ot s3 where run: "download_single_video ydl url base cookies w1 = Some (r, w')"
    and lp: "lp = VRef (next_addr w1)"
    and o: "getitem lp ''outtmpl'' w' = Inr ot"
    and c: "case extract_info ydl s3 lp url of
          Inl e \<Rightarrow>
            r = Inl e \<and> engine_calls w' = engine_calls w1 @ [ExtractInfo lp url]
        | Inr i \<Rightarrow>
            getitem ot ''default'' w' =
              Inr (VStr (author_of (case i of None \<Rightarrow> Map.empty | Some i' \<Rightarrow> i')
                         @ '' - %(title)s.%(ext)s''))
            \<and> engine_calls w' =
                engine_calls w1 @ [ExtractInfo lp url, Download lp [url]]
            \<and> r = download ydl (objs w') lp [url]"
    by (elim exE conjE) (rule that)
  from ei have "extract_info ydl s3 lp url = Inr (Some i)" by simp
  with c a have d: "getitem ot ''default'' w' = Inr (VStr '' - %(title)s.%(ext)s'')"
    and e: "engine_calls w' = engine_calls w1 @ [ExtractInfo lp url, Download lp [url]]"
    by simp_all
  from run lp o d e show ?thesis
    by (intro exI [of _ r] exI [of _ w'] exI [of _ lp] exI [of _ ot] conjI)
qed

text \<open>
  Claim C10. When the first of \<open>channel\<close>, \<open>uploader\<close>, \<open>creator\<close>, \<open>uploader_id\<close> that is
  present, not \<open>None\<close> and not empty is the one character \<open>@\<close>, the author is the empty
  string: the \<open>@\<close> is dropped and \<open>Unknown Author\<close> is not used. With an engine that
  reports such metadata, \<open>download_single_video\<close> called with the base configuration
  returns, and in the final state the \<open>default\<close> entry of the copy's \<open>outtmpl\<close> is
  \<open> - %(title)s.%(ext)s\<close>.
\<close>

theorem author_at_sign_gives_empty_prefix:
  assumes "l < next_addr w" and "objs w l = Some (Instance c [])"
    and "get_base_ydl_params (VRef l) w = (base, w1)"
    and "\<forall>s p. extract_info ydl s p url = Inr (Some i)"
    and "find (\<lambda>s. s \<noteq> [])
           (List.map_filter (info_get i) [''channel'', ''uploader'', ''creator'', ''uploader_id''])
         = Some ''@''"
  shows "author_of i = ''''
    \<and> (\<exists>r w' local_params outtmpl.
        download_single_video ydl url base cookies w1 = Some (r, w')
      \<and> local_params = VRef (next_addr w1)
      \<and> getitem local_params ''outtmpl'' w' = Inr outtmpl
      \<and> getitem outtmpl ''default'' w' = Inr (VStr '' - %(title)s.%(ext)s'')
      \<and> engine_calls w' =
          engine_calls w1 @ [ExtractInfo local_params url, Download local_params [url]])"
  using author_of_at_sign [OF assms(5)]
    download_single_video_at_sign [OF assms(1-4) author_of_at_sign [OF assms(5)]]
  by (intro conjI)

theorem author_at_sign_gives_empty_prefix_witness:
  "author_of [''channel'' \<mapsto> Some ''@''] = ''''
   \<and> (\<exists>r w' local_params outtmpl.
        download_single_video ydl_fine ''https://youtu.be/abc123''
          (fst (get_base_ydl_params (VRef 0) initial_world)) ''''
          (snd (get_base_ydl_params (VRef 0) initial_world)) = Some (r, w')
      \<and> getitem local_params ''outtmpl'' w' = Inr outtmpl
      \<and> getitem outtmpl ''default'' w' = Inr (VStr '' - %(title)s.%(ext)s''))"
proof -
  let ?u = "''https://youtu.be/abc123''"
  let ?g = "get_base_ydl_params (VRef 0) initial_world"
  let ?i = "[''channel'' \<mapsto> Some ''@'']"
  have g: "?g = (fst ?g, snd ?g)" by simp
  have ei: "\<forall>s p. extract_info ydl_fine s p ?u = Inr (Some ?i)" by (simp add: ydl_fine_def)
  have f: "find (\<lambda>s. s \<noteq> [])
           (List.map_filter (info_get ?i) [''channel'', ''uploader'', ''creator'', ''uploader_id''])
         = Some ''@''"
    by (simp add: info_get_def List.map_filter_def)
  note t = author_at_sign_gives_empty_prefix [OF initial_world_logger g ei f, of "''''"]
  from conjunct2 [OF t] obtain r w' lp ot
    where run: "download_single_video ydl_fine ?u (fst ?g) '''' (snd ?g) = Some (r, w')"
      and o: "getitem lp ''outtmpl'' w' = Inr ot"
      and d: "getitem ot ''default'' w' = Inr (VStr '' - %(title)s.%(ext)s'')"
    by (elim exE conjE) (rule that)
  from run o d have "\<exists>r w' local_params outtmpl.
        download_single_video ydl_fine ?u (fst ?g) '''' (snd ?g) = Some (r, w')
      \<and> getitem local_params ''outtmpl'' w' = Inr outtmpl
      \<and> getitem outtmpl ''default'' w' = Inr (VStr '' - %(title)s.%(ext)s'')"
    by (intro exI [of _ r] exI [of _ w'] exI [of _ lp] exI [of _ ot] conjI)
  with conjunct1 [OF t] show ?thesis by (intro conjI)
qed

section \<open>Isolation of the configurations\<close>









end
